theory Spec2Isabelle
  imports Main
begin

section \<open>The API access layer of the Brent oil dashboard (frontend/src/services/api.js)\<close>

text \<open>
  The module wraps an axios instance with two interceptors, keeps a process-wide
  \<open>Map\<close> as a response cache with a lifetime of five minutes, and exports one
  function per backend endpoint. The embedding below follows the module top to bottom.
  Everything the module reads from its surroundings (the clock, \<open>localStorage\<close>, the
  environment variable, and what axios hands to the response interceptors) is an explicit
  input; everything it changes (the cache, the requests handed to the transport, the
  lines written with \<open>console.error\<close>) is a field of an explicit state.
\<close>

subsection \<open>JavaScript values\<close>

text \<open>
  The values that travel through the module are JSON values: query parameter objects,
  parsed response bodies, cached payloads. An object is the list of its own properties in
  enumeration order, which for keys that are not array indices is the order of insertion;
  the keys of one object are distinct. Numbers are restricted to integers, and strings
  are lists of 8-bit characters, which for ASCII text are the code units of the JavaScript
  string.
\<close>

datatype json =
    JNull
  | JBool bool
  | JNum int
  | JStr string
  | JArr "json list"
  | JObj "(string \<times> json) list"

text \<open>
  A response body is a parsed JSON value or, for the export endpoints that ask for
  \<open>responseType: 'blob'\<close>, an opaque \<open>Blob\<close>.
\<close>

datatype payload = Json json | Blob string

text \<open>Truthiness, as \<open>if (x)\<close> and \<open>x || y\<close> test it.\<close>

fun json_truthy :: "json \<Rightarrow> bool" where
  "json_truthy JNull = False"
| "json_truthy (JBool b) = b"
| "json_truthy (JNum n) = (n \<noteq> 0)"
| "json_truthy (JStr s) = (s \<noteq> [])"
| "json_truthy (JArr xs) = True"
| "json_truthy (JObj ms) = True"

fun truthy :: "payload \<Rightarrow> bool" where
  "truthy (Json v) = json_truthy v"
| "truthy (Blob b) = True"

text \<open>
  Property access \<open>v.k\<close> for a string key that is not a built-in property of strings,
  arrays or blobs (the module only reads \<open>message\<close>): \<open>None\<close> is \<open>undefined\<close>.
\<close>

fun json_field :: "json \<Rightarrow> string \<Rightarrow> json option" where
  "json_field (JObj ms) k = map_of ms k"
| "json_field v k = None"

fun field :: "payload \<Rightarrow> string \<Rightarrow> json option" where
  "field (Json v) k = json_field v k"
| "field (Blob b) k = None"

text \<open>The values that are neither arrays nor objects.\<close>

fun scalar :: "json \<Rightarrow> bool" where
  "scalar (JArr xs) = False"
| "scalar (JObj ms) = False"
| "scalar v = True"

subsection \<open>\<open>JSON.stringify\<close>\<close>

definition digit_char :: "nat \<Rightarrow> char" where
  "digit_char d = ''0123456789abcdef'' ! d"

fun show_nat :: "nat \<Rightarrow> string" where
  "show_nat n = (if n < 10 then [digit_char n] else show_nat (n div 10) @ [digit_char (n mod 10)])"

declare show_nat.simps [simp del]

definition show_int :: "int \<Rightarrow> string" where
  "show_int i = (if i < 0 then CHR ''-'' # show_nat (nat (- i)) else show_nat (nat i))"

text \<open>
  \<open>QuoteJSONString\<close>: the double quote and the backslash are escaped, the control
  characters below U+0020 are written with their short escape where one exists and as
  \<open>\u00xx\<close> otherwise, every other character stands for itself.
\<close>

definition escape_char :: "char \<Rightarrow> string" where
  "escape_char c =
     (if c = CHR 0x22 then [CHR 0x5C, CHR 0x22]
      else if c = CHR 0x5C then [CHR 0x5C, CHR 0x5C]
      else if c = CHR 0x08 then [CHR 0x5C, CHR ''b'']
      else if c = CHR 0x0C then [CHR 0x5C, CHR ''f'']
      else if c = CHR 0x0A then [CHR 0x5C, CHR ''n'']
      else if c = CHR 0x0D then [CHR 0x5C, CHR ''r'']
      else if c = CHR 0x09 then [CHR 0x5C, CHR ''t'']
      else if (of_char c :: nat) < 32
        then [CHR 0x5C, CHR ''u'', CHR ''0'', CHR ''0'',
              digit_char (of_char c div 16), digit_char (of_char c mod 16)]
      else [c])"

definition quote :: "string \<Rightarrow> string" where
  "quote s = CHR 0x22 # concat (map escape_char s) @ [CHR 0x22]"

fun stringify :: "json \<Rightarrow> string"
  and stringify_elems :: "json list \<Rightarrow> string"
  and stringify_members :: "(string \<times> json) list \<Rightarrow> string" where
  "stringify JNull = ''null''"
| "stringify (JBool b) = (if b then ''true'' else ''false'')"
| "stringify (JNum n) = show_int n"
| "stringify (JStr s) = quote s"
| "stringify (JArr xs) = ''['' @ stringify_elems xs @ '']''"
| "stringify (JObj ms) = ''{'' @ stringify_members ms @ ''}''"
| "stringify_elems [] = []"
| "stringify_elems [x] = stringify x"
| "stringify_elems (x # y # ys) = stringify x @ '','' @ stringify_elems (y # ys)"
| "stringify_members [] = []"
| "stringify_members [(k, v)] = quote k @ '':'' @ stringify v"
| "stringify_members ((k, v) # m # ms) =
     quote k @ '':'' @ stringify v @ '','' @ stringify_members (m # ms)"

subsection \<open>The axios instance and its interceptors\<close>

text \<open>
  \<open>API_BASE_URL\<close> is the environment variable \<open>REACT_APP_API_URL\<close> when that is set
  and not empty, and the local default otherwise.
\<close>

definition API_BASE_URL :: "string option \<Rightarrow> string" where
  "API_BASE_URL env_url =
     (case env_url of
        Some u \<Rightarrow> if u \<noteq> [] then u else ''http://localhost:5000/api''
      | None \<Rightarrow> ''http://localhost:5000/api'')"

text \<open>
  The configuration of one request, as the request interceptor sees it and as it is handed
  to the transport: the defaults of \<open>axios.create\<close> merged with the arguments of
  \<open>api.get(url, config)\<close>.
\<close>

record request_config =
  req_method :: string
  req_baseURL :: string
  req_url :: string
  req_params :: "(string \<times> json) list option"
  req_responseType :: "string option"
  req_timeout :: nat
  req_headers :: "string \<rightharpoonup> string"

definition api :: "string option \<Rightarrow> request_config" where
  "api env_url =
     \<lparr>req_method = ''get'',
      req_baseURL = API_BASE_URL env_url,
      req_url = [],
      req_params = None,
      req_responseType = None,
      req_timeout = 30000,
      req_headers = [''Content-Type'' \<mapsto> ''application/json'',
                     ''Accept'' \<mapsto> ''application/json'']\<rparr>"

text \<open>
  The request interceptor: \<open>storage\<close> is \<open>localStorage\<close> (\<open>getItem\<close> is the lookup,
  \<open>null\<close> is \<open>None\<close>), \<open>stamp\<close> is \<open>new Date().toISOString()\<close>. A stored empty string
  is falsy and adds no header.
\<close>

definition request_interceptor ::
    "(string \<rightharpoonup> string) \<Rightarrow> string \<Rightarrow> request_config \<Rightarrow> request_config" where
  "request_interceptor storage stamp config =
     (let token = storage ''auth_token'';
          config1 =
            (case token of
               Some t \<Rightarrow>
                 if t \<noteq> []
                 then config\<lparr>req_headers :=
                        (req_headers config)(''Authorization'' \<mapsto> ''Bearer '' @ t)\<rparr>
                 else config
             | None \<Rightarrow> config)
      in config1\<lparr>req_headers := (req_headers config1)(''X-Request-Timestamp'' \<mapsto> stamp)\<rparr>)"

text \<open>
  What axios hands to the response interceptors: a response (to the first handler) or an
  error (to the second), whose \<open>response\<close> is absent when none was received.
\<close>

record http_response =
  resp_status :: nat
  resp_data :: payload

record axios_error =
  err_message :: string
  err_code :: "string option"
  err_response :: "http_response option"

text \<open>The object every rejection of the module carries.\<close>

record normalized_error =
  success :: bool
  message :: json
  status :: "nat option"
  data :: "payload option"

definition response_interceptor :: "http_response \<Rightarrow> payload" where
  "response_interceptor response = resp_data response"

text \<open>
  The error handler returns the calls it makes to \<open>console.error\<close> (each the list of its
  arguments) and the rejection value. \<open>error.response?.data?.message || error.message\<close>
  takes the body's \<open>message\<close> property whenever it is truthy, whatever its type.
\<close>

definition response_error_interceptor :: "axios_error \<Rightarrow> string list list \<times> normalized_error" where
  "response_error_interceptor error =
     (let response = err_response error;
          logged =
            (case response of
               Some r \<Rightarrow>
                 if resp_status r = 401 then [[''Unauthorized access'']]
                 else if resp_status r = 403 then [[''Forbidden access'']]
                 else if resp_status r = 404 then [[''Resource not found'']]
                 else if resp_status r = 500 then [[''Internal server error'']]
                 else if resp_status r = 503 then [[''Service unavailable'']]
                 else [[''API error:'', err_message error]]
             | None \<Rightarrow>
                 if err_code error = Some ''ECONNABORTED'' then [[''Request timeout'']]
                 else if err_code error = Some ''ERR_NETWORK'' then [[''Network error'']]
                 else []);
          body_message =
            (case response of Some r \<Rightarrow> field (resp_data r) ''message'' | None \<Rightarrow> None)
      in (logged,
          \<lparr>success = False,
           message =
             (case body_message of
                Some m \<Rightarrow> if json_truthy m then m else JStr (err_message error)
              | None \<Rightarrow> JStr (err_message error)),
           status = map_option resp_status response,
           data = map_option resp_data response\<rparr>))"

subsection \<open>The cache\<close>

type_synonym params = "(string \<times> json) list"

record cache_entry =
  cached_data :: payload
  timestamp :: int

definition CACHE_DURATION :: int where
  "CACHE_DURATION = 5 * 60 * 1000"

text \<open>
  \<open>getCacheKey(url, params)\<close>; an omitted \<open>params\<close> is \<open>None\<close>. A parameter object is
  truthy even when it is empty, so only the omitted one gives the empty string.
\<close>

definition getCacheKey :: "string \<Rightarrow> params option \<Rightarrow> string" where
  "getCacheKey url ps =
     (let paramString = (case ps of Some p \<Rightarrow> stringify (JObj p) | None \<Rightarrow> [])
      in url @ '':'' @ paramString)"

text \<open>
  The cache is a \<open>Map\<close> from key strings to entries. The reads and writes of the clock
  (\<open>Date.now()\<close>) are the argument \<open>now\<close>.
\<close>

record state =
  cache :: "string \<rightharpoonup> cache_entry"
  sent :: "request_config list"
  console :: "string list list"

text \<open>
  \<open>getFromCache\<close> returns the entry's payload when the entry exists and is younger than
  \<open>CACHE_DURATION\<close>; otherwise it deletes the key and returns \<open>null\<close>. The payload
  itself may be \<open>null\<close>, in which case the two outcomes look the same to the caller.
\<close>

definition getFromCache :: "int \<Rightarrow> string \<Rightarrow> state \<Rightarrow> payload \<times> state" where
  "getFromCache now key s =
     (case cache s key of
        Some cached \<Rightarrow>
          if now - timestamp cached < CACHE_DURATION then (cached_data cached, s)
          else (Json JNull, s\<lparr>cache := (cache s)(key := None)\<rparr>)
      | None \<Rightarrow> (Json JNull, s\<lparr>cache := (cache s)(key := None)\<rparr>))"

definition setToCache :: "int \<Rightarrow> string \<Rightarrow> payload \<Rightarrow> state \<Rightarrow> state" where
  "setToCache now key d s =
     s\<lparr>cache := (cache s)(key \<mapsto> \<lparr>cached_data = d, timestamp = now\<rparr>)\<rparr>"

definition clearCache :: "state \<Rightarrow> state" where
  "clearCache s = s\<lparr>cache := Map.empty\<rparr>"

subsection \<open>One request through the instance\<close>

text \<open>
  The surroundings of one call of an exported function: the environment variable, the
  contents of \<open>localStorage\<close>, the readings of the clock (the ISO string in the request
  interceptor, \<open>Date.now()\<close> in \<open>getFromCache\<close> and in \<open>setToCache\<close>), and what
  axios hands to the response interceptors once the request has settled.
\<close>

record env =
  REACT_APP_API_URL :: "string option"
  localStorage :: "string \<rightharpoonup> string"
  toISOString :: string
  now_lookup :: int
  now_store :: int
  settled :: "axios_error + http_response"

text \<open>The second argument of \<open>api.get\<close>; the module passes \<open>params\<close> or \<open>responseType\<close>.\<close>

record call_config =
  cfg_params :: "(string \<times> json) list option"
  cfg_responseType :: "string option"

definition no_config :: call_config where
  "no_config = \<lparr>cfg_params = None, cfg_responseType = None\<rparr>"

text \<open>
  \<open>await api.get(url, config)\<close> has two halves with a suspension between them. In the
  first, the merged configuration passes the request interceptor and is handed to the
  transport (recorded in \<open>sent\<close>). In the second, which runs when the request has
  settled, the settlement passes the response interceptors; \<open>Inl\<close> is a rejection.
  Whatever else the event loop runs in between sees the state the first half left.
\<close>

definition api_request :: "string \<Rightarrow> call_config \<Rightarrow> env \<Rightarrow> state \<Rightarrow> state" where
  "api_request u cfg e s =
     (let config = request_interceptor (localStorage e) (toISOString e)
                     ((api (REACT_APP_API_URL e))
                        \<lparr>req_url := u,
                         req_params := cfg_params cfg,
                         req_responseType := cfg_responseType cfg\<rparr>)
      in s\<lparr>sent := sent s @ [config]\<rparr>)"

definition api_response :: "env \<Rightarrow> state \<Rightarrow> (normalized_error + payload) \<times> state" where
  "api_response e s =
     (case settled e of
        Inr response \<Rightarrow> (Inr (response_interceptor response), s)
      | Inl error \<Rightarrow>
          (let (logged, rejection) = response_error_interceptor error
           in (Inl rejection, s\<lparr>console := console s @ logged\<rparr>)))"

text \<open>A request during which nothing else runs.\<close>

definition api_get ::
    "string \<Rightarrow> call_config \<Rightarrow> env \<Rightarrow> state \<Rightarrow> (normalized_error + payload) \<times> state" where
  "api_get u cfg e s = api_response e (api_request u cfg e s)"

subsection \<open>The exported functions\<close>

text \<open>
  An exported function is \<open>async\<close>: it runs up to its \<open>await\<close>, and its continuation
  runs when the awaited request has settled. The continuation of a caching function
  stores the response under the key computed before the \<open>await\<close> and returns it; the
  continuation of the other functions returns the response as it is. A rejection leaves
  the function at the \<open>await\<close>, before any store.
\<close>

datatype suspension = Store string | Forward

definition resume ::
    "suspension \<Rightarrow> env \<Rightarrow> state \<Rightarrow> (normalized_error + payload) \<times> state" where
  "resume k e s =
     (case k of
        Forward \<Rightarrow> api_response e s
      | Store cacheKey \<Rightarrow>
          (case api_response e s of
             (Inr response, s2) \<Rightarrow>
               (Inr response, setToCache (now_store e) cacheKey response s2)
           | (Inl rejection, s2) \<Rightarrow> (Inl rejection, s2)))"

text \<open>
  A call during which nothing else runs: what the first half returned (\<open>Inl\<close>), or the
  continuation applied to the state the first half left.
\<close>

definition complete ::
    "(payload + suspension) \<times> state \<Rightarrow> env \<Rightarrow> (normalized_error + payload) \<times> state" where
  "complete started e =
     (case started of
        (Inl returned, s1) \<Rightarrow> (Inr returned, s1)
      | (Inr k, s1) \<Rightarrow> resume k e s1)"

text \<open>
  Seven of the exported functions have the same body up to the URL and the parameters:
  compute the key, look it up, return a truthy hit at once, otherwise request, and after
  the \<open>await\<close> store the response and return it.
\<close>

definition cached_get_begin ::
    "string \<Rightarrow> (string \<times> json) list option \<Rightarrow> env \<Rightarrow> state
      \<Rightarrow> (payload + suspension) \<times> state" where
  "cached_get_begin u ps e s =
     (let cacheKey = getCacheKey u ps;
          (cached, s1) = getFromCache (now_lookup e) cacheKey s
      in if truthy cached then (Inl cached, s1)
         else (Inr (Store cacheKey),
               api_request u \<lparr>cfg_params = ps, cfg_responseType = None\<rparr> e s1))"

definition cached_get ::
    "string \<Rightarrow> (string \<times> json) list option \<Rightarrow> env \<Rightarrow> state
      \<Rightarrow> (normalized_error + payload) \<times> state" where
  "cached_get u ps e s = complete (cached_get_begin u ps e s) e"

definition healthCheck :: "env \<Rightarrow> state \<Rightarrow> (normalized_error + payload) \<times> state" where
  "healthCheck = cached_get ''/health'' None"

text \<open>\<open>params = {}\<close>: an omitted argument is the empty object.\<close>

definition fetchPrices ::
    "(string \<times> json) list option \<Rightarrow> env \<Rightarrow> state \<Rightarrow> (normalized_error + payload) \<times> state" where
  "fetchPrices arg =
     (let ps = (case arg of Some p \<Rightarrow> p | None \<Rightarrow> []) in cached_get ''/prices'' (Some ps))"

definition fetchEvents ::
    "(string \<times> json) list option \<Rightarrow> env \<Rightarrow> state \<Rightarrow> (normalized_error + payload) \<times> state" where
  "fetchEvents arg =
     (let ps = (case arg of Some p \<Rightarrow> p | None \<Rightarrow> []) in cached_get ''/events'' (Some ps))"

definition fetchChangePoints :: "env \<Rightarrow> state \<Rightarrow> (normalized_error + payload) \<times> state" where
  "fetchChangePoints = cached_get ''/change-points'' None"

definition fetchMetrics :: "env \<Rightarrow> state \<Rightarrow> (normalized_error + payload) \<times> state" where
  "fetchMetrics = cached_get ''/metrics'' None"

definition fetchSummaryMetrics :: "env \<Rightarrow> state \<Rightarrow> (normalized_error + payload) \<times> state" where
  "fetchSummaryMetrics = cached_get ''/metrics'' None"

definition fetchSeasonality :: "env \<Rightarrow> state \<Rightarrow> (normalized_error + payload) \<times> state" where
  "fetchSeasonality = cached_get ''/analysis/seasonality'' None"

text \<open>
  \<open>encodeURIComponent\<close> on the UTF-8 bytes of the name: letters, digits and
  \<open>- _ . ! ~ * ' ( )\<close> stand for themselves, every other byte is \<open>%XX\<close>.
\<close>

definition unreserved :: "char \<Rightarrow> bool" where
  "unreserved c =
     (c \<in> set (''ABCDEFGHIJKLMNOPQRSTUVWXYZabcdefghijklmnopqrstuvwxyz0123456789-_.!~*()''
               @ [CHR 0x27]))"

definition encodeURIComponent :: "string \<Rightarrow> string" where
  "encodeURIComponent str =
     concat (map (\<lambda>c. if unreserved c then [c]
                       else [CHR ''%'', ''0123456789ABCDEF'' ! (of_char c div 16),
                             ''0123456789ABCDEF'' ! (of_char c mod 16)]) str)"

text \<open>The two functions that do not touch the cache.\<close>

definition fetchEventImpact ::
    "string \<Rightarrow> env \<Rightarrow> state \<Rightarrow> (normalized_error + payload) \<times> state" where
  "fetchEventImpact eventName =
     api_get (''/analysis/event-impact/'' @ encodeURIComponent eventName) no_config"

definition fetchDashboardConfig :: "env \<Rightarrow> state \<Rightarrow> (normalized_error + payload) \<times> state" where
  "fetchDashboardConfig = api_get ''/config'' no_config"

text \<open>The export functions; the omitted format is \<open>'csv'\<close>, respectively \<open>'json'\<close>.\<close>

definition exportPrices ::
    "string option \<Rightarrow> env \<Rightarrow> state \<Rightarrow> (normalized_error + payload) \<times> state" where
  "exportPrices arg =
     (let format = (case arg of Some f \<Rightarrow> f | None \<Rightarrow> ''csv'')
      in api_get (''/export/prices?format='' @ format)
           \<lparr>cfg_params = None, cfg_responseType = Some ''blob''\<rparr>)"

definition exportEvents ::
    "string option \<Rightarrow> env \<Rightarrow> state \<Rightarrow> (normalized_error + payload) \<times> state" where
  "exportEvents arg =
     (let format = (case arg of Some f \<Rightarrow> f | None \<Rightarrow> ''json'')
      in api_get (''/export/events?format='' @ format)
           \<lparr>cfg_params = None, cfg_responseType = Some ''blob''\<rparr>)"

subsection \<open>\<open>batchRequests\<close>\<close>

text \<open>
  A promise is fulfilled with a value, rejected with a reason, or never settles.
  \<open>Promise.allSettled\<close> settles once every input has, with one result per input in input
  order; \<open>None\<close> says that it never settles.
\<close>

datatype 'v promise = Fulfilled 'v | Rejected 'v | Pending

datatype 'v settled_result = FulfilledResult 'v | RejectedResult 'v

fun allSettled :: "'v promise list \<Rightarrow> 'v settled_result list option" where
  "allSettled [] = Some []"
| "allSettled (p # ps) =
     (case p of
        Pending \<Rightarrow> None
      | Fulfilled v \<Rightarrow> map_option ((#) (FulfilledResult v)) (allSettled ps)
      | Rejected r \<Rightarrow> map_option ((#) (RejectedResult r)) (allSettled ps))"

record 'v batch_result =
  br_request :: "'v promise"
  br_status :: string
  br_data :: 'v
  br_error :: "'v option"

text \<open>
  \<open>results.map((result, index) => ...)\<close>: a result is \<open>{status: 'fulfilled', value}\<close>
  or \<open>{status: 'rejected', reason}\<close>, and the two conditionals on \<open>result.status\<close>
  are the two cases. \<open>error: null\<close> is \<open>None\<close>.
\<close>

definition batchRequests :: "'v promise list \<Rightarrow> 'v batch_result list option" where
  "batchRequests requests =
     map_option
       (\<lambda>results.
          map (\<lambda>(result, index).
                 case result of
                   FulfilledResult v \<Rightarrow>
                     \<lparr>br_request = requests ! index, br_status = ''fulfilled'',
                      br_data = v, br_error = None\<rparr>
                 | RejectedResult reason \<Rightarrow>
                     \<lparr>br_request = requests ! index, br_status = ''rejected'',
                      br_data = reason, br_error = Some reason\<rparr>)
              (zip results [0..<length results]))
       (allSettled requests)"

subsection \<open>Sequences of calls\<close>

text \<open>
  To speak about what happens between two calls, the exported functions that issue a
  read are collected in one type; \<open>run_get\<close> is a call during which nothing else runs.
\<close>

datatype get_call =
    HealthCheck
  | FetchPrices "(string \<times> json) list option"
  | FetchEvents "(string \<times> json) list option"
  | FetchChangePoints
  | FetchMetrics
  | FetchSummaryMetrics
  | FetchEventImpact string
  | FetchSeasonality
  | FetchDashboardConfig
  | ExportPrices "string option"
  | ExportEvents "string option"

fun run_get :: "get_call \<Rightarrow> env \<Rightarrow> state \<Rightarrow> (normalized_error + payload) \<times> state" where
  "run_get HealthCheck = healthCheck"
| "run_get (FetchPrices arg) = fetchPrices arg"
| "run_get (FetchEvents arg) = fetchEvents arg"
| "run_get FetchChangePoints = fetchChangePoints"
| "run_get FetchMetrics = fetchMetrics"
| "run_get FetchSummaryMetrics = fetchSummaryMetrics"
| "run_get (FetchEventImpact eventName) = fetchEventImpact eventName"
| "run_get FetchSeasonality = fetchSeasonality"
| "run_get FetchDashboardConfig = fetchDashboardConfig"
| "run_get (ExportPrices arg) = exportPrices arg"
| "run_get (ExportEvents arg) = exportEvents arg"

text \<open>
  The first half of every exported function, up to its \<open>await\<close>.
\<close>

fun begin_get :: "get_call \<Rightarrow> env \<Rightarrow> state \<Rightarrow> (payload + suspension) \<times> state" where
  "begin_get HealthCheck e s = cached_get_begin ''/health'' None e s"
| "begin_get (FetchPrices arg) e s =
     cached_get_begin ''/prices'' (Some (case arg of Some p \<Rightarrow> p | None \<Rightarrow> [])) e s"
| "begin_get (FetchEvents arg) e s =
     cached_get_begin ''/events'' (Some (case arg of Some p \<Rightarrow> p | None \<Rightarrow> [])) e s"
| "begin_get FetchChangePoints e s = cached_get_begin ''/change-points'' None e s"
| "begin_get FetchMetrics e s = cached_get_begin ''/metrics'' None e s"
| "begin_get FetchSummaryMetrics e s = cached_get_begin ''/metrics'' None e s"
| "begin_get (FetchEventImpact eventName) e s =
     (Inr Forward,
      api_request (''/analysis/event-impact/'' @ encodeURIComponent eventName) no_config e s)"
| "begin_get FetchSeasonality e s = cached_get_begin ''/analysis/seasonality'' None e s"
| "begin_get FetchDashboardConfig e s = (Inr Forward, api_request ''/config'' no_config e s)"
| "begin_get (ExportPrices arg) e s =
     (Inr Forward,
      api_request (''/export/prices?format='' @ (case arg of Some f \<Rightarrow> f | None \<Rightarrow> ''csv''))
        \<lparr>cfg_params = None, cfg_responseType = Some ''blob''\<rparr> e s)"
| "begin_get (ExportEvents arg) e s =
     (Inr Forward,
      api_request (''/export/events?format='' @ (case arg of Some f \<Rightarrow> f | None \<Rightarrow> ''json''))
        \<lparr>cfg_params = None, cfg_responseType = Some ''blob''\<rparr> e s)"

text \<open>
  What the event loop can run on the module, one step at a time: a call during which
  nothing else runs (\<open>Get\<close>), \<open>clearCache\<close>, the first half of a call (\<open>Begin\<close>), and
  the continuation of a suspended call when its request has settled (\<open>Settle\<close>). Each
  step reads the surroundings of its own moment. In a schedule of the program every
  \<open>Settle\<close> carries the suspension of an earlier \<open>Begin\<close>.
\<close>

datatype operation =
    Get get_call env
  | ClearCache
  | Begin get_call env
  | Settle suspension env

fun run_op :: "operation \<Rightarrow> state \<Rightarrow> state" where
  "run_op (Get c e) s = snd (run_get c e s)"
| "run_op ClearCache s = clearCache s"
| "run_op (Begin c e) s = snd (begin_get c e s)"
| "run_op (Settle k e) s = snd (resume k e s)"

fun run_ops :: "operation list \<Rightarrow> state \<Rightarrow> state" where
  "run_ops [] s = s"
| "run_ops (x # xs) s = run_ops xs (run_op x s)"

text \<open>
  The key under which a call looks into the cache, for the seven calls that do.
\<close>

fun cache_key_of :: "get_call \<Rightarrow> string option" where
  "cache_key_of HealthCheck = Some (getCacheKey ''/health'' None)"
| "cache_key_of (FetchPrices arg) =
     Some (getCacheKey ''/prices'' (Some (case arg of Some p \<Rightarrow> p | None \<Rightarrow> [])))"
| "cache_key_of (FetchEvents arg) =
     Some (getCacheKey ''/events'' (Some (case arg of Some p \<Rightarrow> p | None \<Rightarrow> [])))"
| "cache_key_of FetchChangePoints = Some (getCacheKey ''/change-points'' None)"
| "cache_key_of FetchMetrics = Some (getCacheKey ''/metrics'' None)"
| "cache_key_of FetchSummaryMetrics = Some (getCacheKey ''/metrics'' None)"
| "cache_key_of FetchSeasonality = Some (getCacheKey ''/analysis/seasonality'' None)"
| "cache_key_of c = None"

subsection \<open>A mocked transport\<close>

text \<open>
  The state of the freshly loaded module, and surroundings in which the clock reads
  \<open>now\<close>, \<open>localStorage\<close> holds at most the token, and the transport settles with
  \<open>outcome\<close>. They serve to run the module on concrete inputs.
\<close>

definition initial_state :: state where
  "initial_state = \<lparr>cache = Map.empty, sent = [], console = []\<rparr>"

definition mock :: "string option \<Rightarrow> int \<Rightarrow> axios_error + http_response \<Rightarrow> env" where
  "mock token now outcome =
     \<lparr>REACT_APP_API_URL = None,
      localStorage = (case token of Some t \<Rightarrow> [''auth_token'' \<mapsto> t] | None \<Rightarrow> Map.empty),
      toISOString = ''2024-01-01T00:00:00.000Z'',
      now_lookup = now,
      now_store = now,
      settled = outcome\<rparr>"

definition responds :: "nat \<Rightarrow> payload \<Rightarrow> axios_error + http_response" where
  "responds code body = Inr \<lparr>resp_status = code, resp_data = body\<rparr>"

definition fails_with :: "nat \<Rightarrow> payload \<Rightarrow> axios_error + http_response" where
  "fails_with code body =
     Inl \<lparr>err_message = ''Request failed with status code '' @ show_nat code,
          err_code = None,
          err_response = Some \<lparr>resp_status = code, resp_data = body\<rparr>\<rparr>"

definition times_out :: "axios_error + http_response" where
  "times_out =
     Inl \<lparr>err_message = ''timeout of 30000ms exceeded'',
          err_code = Some ''ECONNABORTED'',
          err_response = None\<rparr>"

definition events_query :: "(string \<times> json) list" where
  "events_query = [(''category'', JStr ''Geopolitical''), (''min_impact'', JStr ''High'')]"

definition ok_body :: payload where
  "ok_body = Json (JObj [(''success'', JBool True), (''data'', JArr [])])"

section \<open>Properties\<close>

subsection \<open>Running the module on concrete inputs\<close>

text \<open>
  A request and a caching call during which nothing else runs, written in one piece.
\<close>

lemma api_get_eq:
  "api_get u cfg e s =
     (let config = request_interceptor (localStorage e) (toISOString e)
                     ((api (REACT_APP_API_URL e))
                        \<lparr>req_url := u,
                         req_params := cfg_params cfg,
                         req_responseType := cfg_responseType cfg\<rparr>);
          s1 = s\<lparr>sent := sent s @ [config]\<rparr>
      in case settled e of
           Inr response \<Rightarrow> (Inr (response_interceptor response), s1)
         | Inl error \<Rightarrow>
             (let (logged, rejection) = response_error_interceptor error
              in (Inl rejection, s1\<lparr>console := console s1 @ logged\<rparr>)))"
  by (simp add: api_get_def api_request_def api_response_def Let_def)

lemma cached_get_eq:
  "cached_get u ps e s =
     (let cacheKey = getCacheKey u ps;
          (cached, s1) = getFromCache (now_lookup e) cacheKey s
      in if truthy cached then (Inr cached, s1)
         else (case api_get u \<lparr>cfg_params = ps, cfg_responseType = None\<rparr> e s1 of
                 (Inr response, s2) \<Rightarrow>
                   (Inr response, setToCache (now_store e) cacheKey response s2)
               | (Inl rejection, s2) \<Rightarrow> (Inl rejection, s2)))"
  by (simp add: cached_get_def cached_get_begin_def complete_def resume_def api_get_def
      Let_def split: prod.splits)

lemmas eval_defs = run_get.simps run_ops.simps run_op.simps begin_get.simps
  resume_def complete_def cached_get_begin_def api_request_def api_response_def
  healthCheck_def fetchPrices_def fetchEvents_def fetchChangePoints_def
  fetchMetrics_def fetchSummaryMetrics_def fetchSeasonality_def fetchEventImpact_def
  fetchDashboardConfig_def exportPrices_def exportEvents_def
  cached_get_eq getFromCache_def setToCache_def clearCache_def api_get_eq
  request_interceptor_def response_interceptor_def response_error_interceptor_def
  api_def API_BASE_URL_def no_config_def
  initial_state_def mock_def responds_def fails_with_def times_out_def
  getCacheKey_def quote_def escape_char_def show_int_def digit_char_def
  CACHE_DURATION_def Let_def events_query_def ok_body_def

subsection \<open>What one request does to the state\<close>

lemma api_get_cache: "cache (snd (api_get u cfg e s)) = cache s"
  by (simp add: api_get_eq Let_def split: sum.splits prod.splits)

lemma api_get_sent:
  "sent (snd (api_get u cfg e s)) =
     sent s @ [request_interceptor (localStorage e) (toISOString e)
                 ((api (REACT_APP_API_URL e))\<lparr>req_url := u, req_params := cfg_params cfg,
                    req_responseType := cfg_responseType cfg\<rparr>)]"
  by (simp add: api_get_eq Let_def split: sum.splits prod.splits)

lemma api_get_result_cache_indep:
  "fst (api_get u cfg e (s\<lparr>cache := c\<rparr>)) = fst (api_get u cfg e s)"
  by (simp add: api_get_eq Let_def split: sum.splits prod.splits)

lemma interceptor_content_type:
  "req_headers (request_interceptor st stamp ((api v)\<lparr>req_url := u, req_params := ps,
       req_responseType := rt\<rparr>)) ''Content-Type'' = Some ''application/json''"
  by (simp add: request_interceptor_def api_def Let_def split: option.splits)

lemma interceptor_authorization:
  "req_headers (request_interceptor st stamp ((api v)\<lparr>req_url := u, req_params := ps,
       req_responseType := rt\<rparr>)) ''Authorization'' =
     (case st ''auth_token'' of
        Some t \<Rightarrow> if t \<noteq> [] then Some (''Bearer '' @ t) else None
      | None \<Rightarrow> None)"
  by (simp add: request_interceptor_def api_def Let_def split: option.splits)

lemma interceptor_responseType:
  "req_responseType (request_interceptor st stamp ((api v)\<lparr>req_url := u, req_params := ps,
       req_responseType := rt\<rparr>)) = rt"
  by (simp add: request_interceptor_def api_def Let_def split: option.splits)

lemma cached_get_sent:
  "sent (snd (cached_get u ps e s)) = sent s \<or>
   sent (snd (cached_get u ps e s)) =
     sent s @ [request_interceptor (localStorage e) (toISOString e)
                 ((api (REACT_APP_API_URL e))\<lparr>req_url := u, req_params := ps,
                    req_responseType := None\<rparr>)]"
  by (auto simp: cached_get_eq getFromCache_def setToCache_def api_get_eq Let_def
      split: sum.splits prod.splits option.splits if_splits)

lemma api_get_fulfilled:
  "settled e = Inr r \<Longrightarrow> fst (api_get u cfg e s) = Inr (resp_data r)"
  by (simp add: api_get_eq Let_def response_interceptor_def)

lemma api_get_rejected:
  "settled e = Inl err \<Longrightarrow>
     fst (api_get u cfg e s) = Inl (snd (response_error_interceptor err)) \<and>
     console (snd (api_get u cfg e s)) = console s @ fst (response_error_interceptor err)"
  by (simp add: api_get_eq Let_def split: prod.splits)

lemma getFromCache_frame:
  "getFromCache now k s = (x, s') \<Longrightarrow> sent s' = sent s \<and> console s' = console s"
  by (auto simp: getFromCache_def split: option.splits if_splits)

subsection \<open>The caching functions\<close>

lemma cached_get_hit:
  assumes "cache s (getCacheKey u ps) = Some en"
    and "now_lookup e - timestamp en < CACHE_DURATION"
    and "truthy (cached_data en)"
  shows "cached_get u ps e s = (Inr (cached_data en), s)"
  using assms by (simp add: cached_get_eq getFromCache_def)

lemma cached_get_other_key:
  "k \<noteq> getCacheKey u ps \<Longrightarrow> cache (snd (cached_get u ps e s)) k = cache s k"
  by (auto simp: cached_get_eq getFromCache_def setToCache_def api_get_eq Let_def
      split: sum.splits prod.splits option.splits if_splits)

lemma cached_get_result_entry:
  assumes "cached_get u ps e s = (Inr p, s1)" and "truthy p"
  shows "\<exists>t. cache s1 (getCacheKey u ps) = Some \<lparr>cached_data = p, timestamp = t\<rparr>"
proof (cases "truthy (fst (getFromCache (now_lookup e) (getCacheKey u ps) s))")
  case True
  then obtain en where en: "cache s (getCacheKey u ps) = Some en"
    "now_lookup e - timestamp en < CACHE_DURATION"
    by (auto simp: getFromCache_def split: option.splits if_splits)
  with True have "truthy (cached_data en)"
    by (simp add: getFromCache_def)
  from cached_get_hit [OF en this] assms have "p = cached_data en" "s1 = s"
    by simp_all
  with en have "cache s1 (getCacheKey u ps) = Some \<lparr>cached_data = p, timestamp = timestamp en\<rparr>"
    by simp
  then show ?thesis ..
next
  case False
  with assms(1) have "cache s1 (getCacheKey u ps) =
      Some \<lparr>cached_data = p, timestamp = now_store e\<rparr>"
    by (auto simp: cached_get_eq setToCache_def api_get_eq Let_def
        split: sum.splits prod.splits)
  then show ?thesis ..
qed

lemma run_get_cached:
  "cache_key_of c = Some k \<Longrightarrow> \<exists>u ps. run_get c = cached_get u ps \<and> k = getCacheKey u ps"
  by (cases c)
     (auto simp: healthCheck_def fetchPrices_def fetchEvents_def fetchChangePoints_def
        fetchMetrics_def fetchSummaryMetrics_def fetchSeasonality_def)

lemma run_get_uncached:
  "cache_key_of c = None \<Longrightarrow> cache (snd (run_get c e s)) = cache s"
  by (cases c)
     (simp_all add: fetchEventImpact_def fetchDashboardConfig_def exportPrices_def
        exportEvents_def api_get_cache)

lemma run_get_keeps_live_entry:
  assumes "cache s k = Some en" and "truthy (cached_data en)"
    and "now_lookup e - timestamp en < CACHE_DURATION"
  shows "cache (snd (run_get c e s)) k = Some en"
proof (cases "cache_key_of c")
  case None
  with assms(1) show ?thesis by (simp add: run_get_uncached)
next
  case (Some k')
  then obtain u ps where c: "run_get c = cached_get u ps" "k' = getCacheKey u ps"
    using run_get_cached by blast
  show ?thesis
  proof (cases "k' = k")
    case True
    with c assms show ?thesis by (simp add: cached_get_hit)
  next
    case False
    with c assms(1) show ?thesis by (simp add: cached_get_other_key)
  qed
qed

text \<open>The two halves of a call, and what each does to the cache.\<close>

lemma run_get_complete: "run_get c e s = complete (begin_get c e s) e"
  by (cases c)
     (simp_all add: healthCheck_def fetchPrices_def fetchEvents_def fetchChangePoints_def
        fetchMetrics_def fetchSummaryMetrics_def fetchSeasonality_def fetchEventImpact_def
        fetchDashboardConfig_def exportPrices_def exportEvents_def Let_def
        cached_get_def api_get_def complete_def resume_def)

lemma begin_get_cached:
  "cache_key_of c = Some k \<Longrightarrow>
     \<exists>u ps. (\<forall>e s. begin_get c e s = cached_get_begin u ps e s) \<and>
            run_get c = cached_get u ps \<and> k = getCacheKey u ps"
  by (cases c)
     (auto simp: healthCheck_def fetchPrices_def fetchEvents_def fetchChangePoints_def
        fetchMetrics_def fetchSummaryMetrics_def fetchSeasonality_def)

lemma begin_get_uncached:
  "cache_key_of c = None \<Longrightarrow>
     \<exists>u cfg. \<forall>e s. begin_get c e s = (Inr Forward, api_request u cfg e s)"
  by (cases c) auto

lemma api_request_frame:
  "cache (api_request u cfg e s) = cache s \<and> console (api_request u cfg e s) = console s \<and>
   (\<exists>rq. sent (api_request u cfg e s) = sent s @ [rq])"
  by (simp add: api_request_def Let_def)

lemma api_response_frame:
  "cache (snd (api_response e s)) = cache s \<and> sent (snd (api_response e s)) = sent s"
  by (simp add: api_response_def split: sum.splits prod.splits)

lemma cached_get_begin_hit:
  assumes "cache s (getCacheKey u ps) = Some en"
    and "now_lookup e - timestamp en < CACHE_DURATION"
    and "truthy (cached_data en)"
  shows "cached_get_begin u ps e s = (Inl (cached_data en), s)"
  using assms by (simp add: cached_get_begin_def getFromCache_def)

lemma cached_get_begin_miss:
  assumes "cache s (getCacheKey u ps) = None"
  shows "fst (cached_get_begin u ps e s) = Inr (Store (getCacheKey u ps)) \<and>
         (\<exists>rq. sent (snd (cached_get_begin u ps e s)) = sent s @ [rq])"
  using assms by (simp add: cached_get_begin_def getFromCache_def api_request_def Let_def)

lemma cached_get_begin_other_key:
  "k \<noteq> getCacheKey u ps \<Longrightarrow> cache (snd (cached_get_begin u ps e s)) k = cache s k"
  by (auto simp: cached_get_begin_def getFromCache_def api_request_frame Let_def
      split: prod.splits option.splits if_splits)

lemma cached_get_begin_absent:
  "cache s k = None \<Longrightarrow> cache (snd (cached_get_begin u ps e s)) k = None"
  by (auto simp: cached_get_begin_def getFromCache_def api_request_frame Let_def
      split: prod.splits option.splits if_splits)

lemma resume_other_key:
  "susp \<noteq> Store k \<Longrightarrow> cache (snd (resume susp e s)) k = cache s k"
  using api_response_frame [of e s]
  by (cases susp) (auto simp: resume_def setToCache_def split: prod.splits sum.splits)

lemma resume_store_entry:
  assumes "resume (Store k) e s = (Inr p, s1)"
  shows "cache s1 k = Some \<lparr>cached_data = p, timestamp = now_store e\<rparr>"
  using assms by (auto simp: resume_def setToCache_def split: prod.splits sum.splits)

lemma begin_get_keeps_live_entry:
  assumes "cache s k = Some en" and "truthy (cached_data en)"
    and "now_lookup e - timestamp en < CACHE_DURATION"
  shows "cache (snd (begin_get c e s)) k = Some en"
proof (cases "cache_key_of c")
  case None
  from begin_get_uncached [OF this] assms(1) show ?thesis
    by (auto simp: api_request_frame)
next
  case (Some k')
  from begin_get_cached [OF this] obtain u ps where
    c: "\<And>e s. begin_get c e s = cached_get_begin u ps e s" "k' = getCacheKey u ps"
    by blast
  show ?thesis
  proof (cases "k' = k")
    case True
    with c assms show ?thesis by (simp add: cached_get_begin_hit)
  next
    case False
    with c assms(1) show ?thesis by (simp add: cached_get_begin_other_key)
  qed
qed

lemma run_op_keeps_live_entry:
  assumes "cache s k = Some en" and "truthy (cached_data en)"
    and "x \<noteq> ClearCache" and "\<forall>e. x \<noteq> Settle (Store k) e"
    and "\<forall>d e. x = Get d e \<or> x = Begin d e \<longrightarrow> now_lookup e - timestamp en < CACHE_DURATION"
  shows "cache (run_op x s) k = Some en"
proof (cases x)
  case (Get d e)
  with assms show ?thesis by (simp add: run_get_keeps_live_entry)
next
  case ClearCache
  with assms(3) show ?thesis by simp
next
  case (Begin d e)
  with assms show ?thesis by (simp add: begin_get_keeps_live_entry)
next
  case (Settle susp e)
  with assms(4) have "susp \<noteq> Store k" by auto
  with Settle assms(1) show ?thesis by (simp add: resume_other_key)
qed

lemma run_ops_keeps_live_entry:
  assumes "cache s k = Some en" and "truthy (cached_data en)"
    and "ClearCache \<notin> set ops" and "\<forall>e. Settle (Store k) e \<notin> set ops"
    and "\<forall>d e. Get d e \<in> set ops \<or> Begin d e \<in> set ops \<longrightarrow>
           now_lookup e - timestamp en < CACHE_DURATION"
  shows "cache (run_ops ops s) k = Some en"
  using assms
proof (induction ops arbitrary: s)
  case Nil
  then show ?case by simp
next
  case (Cons x xs)
  have "cache (run_op x s) k = Some en"
    using Cons.prems by (intro run_op_keeps_live_entry) auto
  moreover have "ClearCache \<notin> set xs" "\<forall>e. Settle (Store k) e \<notin> set xs"
    "\<forall>d e. Get d e \<in> set xs \<or> Begin d e \<in> set xs \<longrightarrow>
           now_lookup e - timestamp en < CACHE_DURATION"
    using Cons.prems by auto
  ultimately show ?case using Cons.IH Cons.prems(2) by simp
qed

text \<open>A key without an entry stays without one until a call for it is made or settles.\<close>

lemma run_op_keeps_absent:
  assumes "cache s k = None" and "\<forall>e. x \<noteq> Settle (Store k) e"
    and "\<forall>d e. x = Get d e \<or> x = Begin d e \<longrightarrow> cache_key_of d \<noteq> Some k"
  shows "cache (run_op x s) k = None"
proof (cases x)
  case (Get d e)
  show ?thesis
  proof (cases "cache_key_of d")
    case None
    with Get assms(1) show ?thesis by (simp add: run_get_uncached)
  next
    case (Some k')
    with Get assms(3) have "k \<noteq> k'" by auto
    moreover from run_get_cached [OF Some] obtain u ps where
      "run_get d = cached_get u ps" "k' = getCacheKey u ps" by blast
    ultimately show ?thesis using Get assms(1) by (simp add: cached_get_other_key)
  qed
next
  case ClearCache
  then show ?thesis by (simp add: clearCache_def)
next
  case (Begin d e)
  show ?thesis
  proof (cases "cache_key_of d")
    case None
    from begin_get_uncached [OF this] Begin assms(1) show ?thesis
      by (auto simp: api_request_frame)
  next
    case (Some k')
    from begin_get_cached [OF this] Begin assms(1) show ?thesis
      by (auto simp: cached_get_begin_absent)
  qed
next
  case (Settle susp e)
  with assms(2) have "susp \<noteq> Store k" by auto
  with Settle assms(1) show ?thesis by (simp add: resume_other_key)
qed

lemma run_ops_keeps_absent:
  assumes "cache s k = None" and "\<forall>e. Settle (Store k) e \<notin> set ops"
    and "\<forall>d e. Get d e \<in> set ops \<or> Begin d e \<in> set ops \<longrightarrow> cache_key_of d \<noteq> Some k"
  shows "cache (run_ops ops s) k = None"
  using assms
proof (induction ops arbitrary: s)
  case Nil
  then show ?case by simp
next
  case (Cons x xs)
  have "cache (run_op x s) k = None"
    using Cons.prems by (intro run_op_keeps_absent) auto
  moreover have "\<forall>e. Settle (Store k) e \<notin> set xs"
    "\<forall>d e. Get d e \<in> set xs \<or> Begin d e \<in> set xs \<longrightarrow> cache_key_of d \<noteq> Some k"
    using Cons.prems by auto
  ultimately show ?case using Cons.IH by simp
qed

text \<open>
  A call that hands a request to the transport behaves, in its result, its requests and
  its console output, like \<open>api.get\<close> with some URL and configuration.
\<close>

lemma run_get_request:
  assumes "sent (snd (run_get c e s)) \<noteq> sent s"
  shows "\<exists>u cfg s'. sent s' = sent s \<and> console s' = console s \<and>
           fst (run_get c e s) = fst (api_get u cfg e s') \<and>
           sent (snd (run_get c e s)) = sent (snd (api_get u cfg e s')) \<and>
           console (snd (run_get c e s)) = console (snd (api_get u cfg e s'))"
proof (cases "cache_key_of c")
  case None
  then obtain u cfg where "run_get c = api_get u cfg"
    by (cases c) (auto simp: fetchEventImpact_def fetchDashboardConfig_def exportPrices_def
        exportEvents_def Let_def)
  then show ?thesis by metis
next
  case (Some k)
  then obtain u ps where c: "run_get c = cached_get u ps"
    using run_get_cached by blast
  let ?s' = "snd (getFromCache (now_lookup e) (getCacheKey u ps) s)"
  let ?cfg = "\<lparr>cfg_params = ps, cfg_responseType = None\<rparr>"
  have s': "sent ?s' = sent s" "console ?s' = console s"
    by (simp_all add: getFromCache_def split: option.splits)
  from assms c have miss: "\<not> truthy (fst (getFromCache (now_lookup e) (getCacheKey u ps) s))"
    by (auto simp: cached_get_eq Let_def split: prod.splits dest: getFromCache_frame)
  then have "fst (cached_get u ps e s) = fst (api_get u ?cfg e ?s')"
    "sent (snd (cached_get u ps e s)) = sent (snd (api_get u ?cfg e ?s'))"
    "console (snd (cached_get u ps e s)) = console (snd (api_get u ?cfg e ?s'))"
    by (auto simp: cached_get_eq Let_def setToCache_def split: prod.splits sum.splits)
  with c s' show ?thesis by metis
qed

lemma fetchMetrics_eq_fetchSummaryMetrics: "fetchMetrics = fetchSummaryMetrics"
  by (simp add: fetchMetrics_def fetchSummaryMetrics_def)

subsection \<open>Cache keys\<close>

text \<open>
  \<open>JSON.stringify\<close> can be read back: the escapes of two characters never overlap, so a
  quoted string determines the string and what follows it.
\<close>

lemma digit_char_inj16:
  "\<forall>a\<in>{0..<16}. \<forall>b\<in>{0..<16}. digit_char a = digit_char b \<longrightarrow> a = b"
  by code_simp

lemma escape_char_head:
  "\<exists>h t. escape_char c = h # t \<and> h \<noteq> CHR 0x22"
  by (simp add: escape_char_def)

lemma hex_inj:
  assumes "n < 32" "m < 32"
    and "digit_char (n div 16) = digit_char (m div 16)"
    and "digit_char (n mod 16) = digit_char (m mod 16)"
  shows "n = (m::nat)"
proof -
  have "n div 16 \<in> {0..<16}" "m div 16 \<in> {0..<16}" "n mod 16 \<in> {0..<16}" "m mod 16 \<in> {0..<16}"
    using assms(1,2) by auto
  with digit_char_inj16 assms(3,4) have "n div 16 = m div 16" "n mod 16 = m mod 16"
    by blast+
  then show ?thesis by (metis div_mult_mod_eq)
qed

lemma escape_char_inj:
  assumes "escape_char c @ x = escape_char d @ y"
  shows "c = d \<and> x = y"
proof -
  have u: "c = d" if "(of_char c :: nat) < 32" "(of_char d :: nat) < 32"
    "digit_char (of_char c div 16) = digit_char (of_char d div 16)"
    "digit_char (of_char c mod 16) = digit_char (of_char d mod 16)"
    using hex_inj [OF that] by simp
  show ?thesis
    using assms u unfolding escape_char_def
    by (auto split: if_splits)
qed


lemma escaped_inj:
  "concat (map escape_char s) @ CHR 0x22 # x = concat (map escape_char t) @ CHR 0x22 # y
     \<Longrightarrow> s = t \<and> x = y"
proof (induction s arbitrary: t)
  case Nil
  show ?case
  proof (cases t)
    case Nil
    with Nil.prems show ?thesis by simp
  next
    case (Cons d ds)
    from escape_char_head [of d] obtain h tl where "escape_char d = h # tl" "h \<noteq> CHR 0x22"
      by blast
    with Nil.prems Cons show ?thesis by simp
  qed
next
  case (Cons c cs)
  show ?case
  proof (cases t)
    case Nil
    from escape_char_head [of c] obtain h tl where "escape_char c = h # tl" "h \<noteq> CHR 0x22"
      by blast
    with Cons.prems Nil show ?thesis by simp
  next
    case (Cons d ds)
    with Cons.prems have
      "escape_char c @ (concat (map escape_char cs) @ CHR 0x22 # x) =
       escape_char d @ (concat (map escape_char ds) @ CHR 0x22 # y)"
      by simp
    from escape_char_inj [OF this] have "c = d"
      and "concat (map escape_char cs) @ CHR 0x22 # x = concat (map escape_char ds) @ CHR 0x22 # y"
      by simp_all
    with Cons.IH [of ds] Cons show ?thesis by simp
  qed
qed

lemma quote_inj: "quote s @ x = quote t @ y \<Longrightarrow> s = t \<and> x = y"
  using escaped_inj [of s x t y] by (simp add: quote_def)

lemma quote_head: "\<exists>t. quote s = CHR 0x22 # t"
  by (simp add: quote_def)

lemma stringify_members_Cons:
  "stringify_members ((k, v) # ms) =
     quote k @ '':'' @ stringify v @ (if ms = [] then [] else '','' @ stringify_members ms)"
  by (cases ms) auto

text \<open>
  A decimal numeral consists of digits and determines the number; hence a scalar value
  followed by a comma or a closing brace determines the value and what follows.
\<close>

lemma digit_char_decimal: "d < 10 \<Longrightarrow> digit_char d \<in> set ''0123456789''"
proof -
  have "\<forall>d\<in>{0..<10}. digit_char d \<in> set ''0123456789''" by code_simp
  then show "d < 10 \<Longrightarrow> digit_char d \<in> set ''0123456789''" by simp
qed

lemma show_nat_digits: "show_nat n \<noteq> [] \<and> set (show_nat n) \<subseteq> set ''0123456789''"
proof (induction n rule: show_nat.induct)
  case (1 n)
  show ?case
  proof (cases "n < 10")
    case True
    with digit_char_decimal [of n] show ?thesis by (simp add: show_nat.simps [of n])
  next
    case False
    have "n mod 10 < 10" by simp
    from digit_char_decimal [OF this] 1 False show ?thesis
      by (simp add: show_nat.simps [of n])
  qed
qed

lemma show_nat_inj: "show_nat n = show_nat m \<Longrightarrow> n = m"
proof (induction n arbitrary: m rule: show_nat.induct)
  case (1 n)
  have dinj: "a = b" if "a < 10" "b < 10" "digit_char a = digit_char b" for a b
    using digit_char_inj16 that by auto
  show ?case
  proof (cases "n < 10"; cases "m < 10")
    assume "n < 10" "m < 10"
    with "1.prems" dinj show ?thesis
      by (simp add: show_nat.simps [of n] show_nat.simps [of m])
  next
    assume "n < 10" "\<not> m < 10"
    with "1.prems" show_nat_digits [of "m div 10"] show ?thesis
      by (simp add: show_nat.simps [of n] show_nat.simps [of m])
  next
    assume "\<not> n < 10" "m < 10"
    with "1.prems" show_nat_digits [of "n div 10"] show ?thesis
      by (simp add: show_nat.simps [of n] show_nat.simps [of m])
  next
    assume nm: "\<not> n < 10" "\<not> m < 10"
    with "1.prems" have "show_nat (n div 10) = show_nat (m div 10)"
      "digit_char (n mod 10) = digit_char (m mod 10)"
      by (simp_all add: show_nat.simps [of n] show_nat.simps [of m])
    with "1.IH" [of "m div 10"] nm dinj [of "n mod 10" "m mod 10"]
    have "n div 10 = m div 10" "n mod 10 = m mod 10" by simp_all
    then show ?thesis by (metis div_mult_mod_eq)
  qed
qed

lemma delimited_inj:
  assumes "set a \<subseteq> D" "set b \<subseteq> D" "x \<noteq> []" "hd x \<notin> D" "y \<noteq> []" "hd y \<notin> D"
    and "a @ x = b @ y"
  shows "a = b \<and> x = y"
  using assms
proof (induction a arbitrary: b)
  case Nil
  then show ?case by (cases b) auto
next
  case (Cons c cs)
  then show ?case by (cases b) auto
qed


lemma show_nat_delimited:
  assumes "show_nat n @ x = show_nat m @ y"
    and "x \<noteq> []" "hd x \<in> {CHR '','', CHR ''}''}" "y \<noteq> []" "hd y \<in> {CHR '','', CHR ''}''}"
  shows "n = m \<and> x = y"
proof -
  have "hd x \<notin> set ''0123456789''" "hd y \<notin> set ''0123456789''"
    using assms(3,5) by auto
  with delimited_inj [of "show_nat n" "set ''0123456789''" "show_nat m" x y]
    show_nat_digits [of n] show_nat_digits [of m] assms(1,2,4)
  have "show_nat n = show_nat m \<and> x = y" by blast
  with show_nat_inj show ?thesis by blast
qed

lemma show_int_head: "\<exists>h t. show_int a = h # t \<and> h \<in> set ''-0123456789''"
proof (cases "a < 0")
  case True
  then show ?thesis by (simp add: show_int_def)
next
  case False
  from show_nat_digits [of "nat a"] obtain h t where "show_nat (nat a) = h # t"
    "h \<in> set ''0123456789''"
    by (cases "show_nat (nat a)") auto
  with False show ?thesis by (auto simp: show_int_def)
qed

lemma show_int_delimited:
  assumes "show_int a @ x = show_int b @ y"
    and "x \<noteq> []" "hd x \<in> {CHR '','', CHR ''}''}" "y \<noteq> []" "hd y \<in> {CHR '','', CHR ''}''}"
  shows "a = b \<and> x = y"
proof -
  have nd: "hd (show_nat k) \<noteq> CHR ''-''" for k
    using show_nat_digits [of k] by (cases "show_nat k") auto
  have ne: "show_nat k \<noteq> []" for k
    using show_nat_digits [of k] by simp
  show ?thesis
  proof (cases "a < 0"; cases "b < 0")
    assume "a < 0" "b < 0"
    with assms(1) have "show_nat (nat (- a)) @ x = show_nat (nat (- b)) @ y"
      by (simp add: show_int_def)
    from show_nat_delimited [OF this assms(2-5)] \<open>a < 0\<close> \<open>b < 0\<close> show ?thesis by auto
  next
    assume "a < 0" "\<not> b < 0"
    with assms(1) have "CHR ''-'' # show_nat (nat (- a)) @ x = show_nat (nat b) @ y"
      by (simp add: show_int_def)
    with nd [of "nat b"] ne [of "nat b"] show ?thesis
      by (cases "show_nat (nat b)") auto
  next
    assume "\<not> a < 0" "b < 0"
    with assms(1) have "show_nat (nat a) @ x = CHR ''-'' # show_nat (nat (- b)) @ y"
      by (simp add: show_int_def)
    with nd [of "nat a"] ne [of "nat a"] show ?thesis
      by (cases "show_nat (nat a)") auto
  next
    assume "\<not> a < 0" "\<not> b < 0"
    with assms(1) have "show_nat (nat a) @ x = show_nat (nat b) @ y"
      by (simp add: show_int_def)
    from show_nat_delimited [OF this assms(2-5)] \<open>\<not> a < 0\<close> \<open>\<not> b < 0\<close> show ?thesis by auto
  qed
qed

lemma stringify_head:
  "stringify JNull = ''null''"
  "\<exists>t. stringify (JBool p) = CHR ''t'' # t \<or> stringify (JBool p) = CHR ''f'' # t"
  "\<exists>h t. stringify (JNum a) = h # t \<and> h \<in> set ''-0123456789''"
  "\<exists>t. stringify (JStr s) = CHR 0x22 # t"
  using show_int_head [of a] quote_head [of s] by auto

lemma scalar_delimited:
  assumes "scalar v" "scalar w" and "stringify v @ x = stringify w @ y"
    and "x \<noteq> []" "hd x \<in> {CHR '','', CHR ''}''}" "y \<noteq> []" "hd y \<in> {CHR '','', CHR ''}''}"
  shows "v = w \<and> x = y"
proof (cases v)
  case JNull
  show ?thesis
  proof (cases w)
    case (JBool q)
    with JNull assms(3) show ?thesis by (auto split: if_splits)
  next
    case (JNum b)
    with JNull assms(3) stringify_head(3) [of b] show ?thesis by auto
  next
    case (JStr t)
    with JNull assms(3) stringify_head(4) [of t] show ?thesis by auto
  qed (use JNull assms(2,3) in auto)
next
  case (JBool p)
  show ?thesis
  proof (cases w)
    case (JBool q)
    with \<open>v = JBool p\<close> assms(3) show ?thesis by (auto split: if_splits)
  next
    case (JNum b)
    with JBool assms(3) stringify_head(3) [of b] show ?thesis by (auto split: if_splits)
  next
    case (JStr t)
    with JBool assms(3) stringify_head(4) [of t] show ?thesis by (auto split: if_splits)
  qed (use JBool assms(2,3) in \<open>auto split: if_splits\<close>)
next
  case (JNum a)
  show ?thesis
  proof (cases w)
    case JNull
    with JNum assms(3) stringify_head(3) [of a] show ?thesis by auto
  next
    case (JBool q)
    with JNum assms(3) stringify_head(3) [of a] show ?thesis by (auto split: if_splits)
  next
    case (JNum b)
    with \<open>v = JNum a\<close> assms(3) have "show_int a @ x = show_int b @ y" by simp
    from show_int_delimited [OF this assms(4-7)] JNum \<open>v = JNum a\<close> show ?thesis by simp
  next
    case (JStr t)
    with JNum assms(3) stringify_head(3) [of a] stringify_head(4) [of t] show ?thesis
      by auto
  qed (use assms(2) in auto)
next
  case (JStr s)
  show ?thesis
  proof (cases w)
    case JNull
    with JStr assms(3) stringify_head(4) [of s] show ?thesis by auto
  next
    case (JBool q)
    with JStr assms(3) stringify_head(4) [of s] show ?thesis by (auto split: if_splits)
  next
    case (JNum b)
    with JStr assms(3) stringify_head(3) [of b] stringify_head(4) [of s] show ?thesis
      by auto
  next
    case (JStr t)
    with \<open>v = JStr s\<close> assms(3) quote_inj [of s x t y] show ?thesis by simp
  qed (use assms(2) in auto)
next
  case (JArr xs)
  with assms(1) show ?thesis by simp
next
  case (JObj ms)
  with assms(1) show ?thesis by simp
qed


lemma scalar_members_inj:
  assumes "\<forall>v\<in>snd ` set ps. scalar v" "\<forall>v\<in>snd ` set qs. scalar v"
    and "stringify_members ps @ CHR ''}'' # x = stringify_members qs @ CHR ''}'' # y"
  shows "ps = qs \<and> x = y"
  using assms
proof (induction ps arbitrary: qs)
  case Nil
  show ?case
  proof (cases qs)
    case Nil
    with Nil.prems show ?thesis by simp
  next
    case (Cons q qs')
    obtain k v where "q = (k, v)" by (cases q)
    with Nil.prems Cons quote_head [of k] show ?thesis
      by (auto simp: stringify_members_Cons)
  qed
next
  case (Cons p ps')
  obtain k v where p: "p = (k, v)" by (cases p)
  show ?case
  proof (cases qs)
    case Nil
    with Cons.prems p quote_head [of k] show ?thesis
      by (auto simp: stringify_members_Cons)
  next
    case (Cons q qs')
    obtain k' v' where q: "q = (k', v')" by (cases q)
    let ?R = "\<lambda>ms z. (if ms = [] then [] else '','' @ stringify_members ms) @ CHR ''}'' # z"
    have sc: "scalar v" "scalar v'"
      using Cons.prems(1,2) p q Cons by auto
    have R: "?R ms z \<noteq> [] \<and> hd (?R ms z) \<in> {CHR '','', CHR ''}''}" for ms z
      by simp
    from Cons.prems(3) p q Cons have
      "quote k @ ('':'' @ stringify v @ ?R ps' x) = quote k' @ ('':'' @ stringify v' @ ?R qs' y)"
      by (simp add: stringify_members_Cons)
    from quote_inj [OF this] have k: "k = k'"
      and "stringify v @ ?R ps' x = stringify v' @ ?R qs' y" by simp_all
    from scalar_delimited [OF sc this(2)] R have v: "v = v'" and eq: "?R ps' x = ?R qs' y"
      by blast+
    have "ps' = qs' \<and> x = y"
    proof (cases "ps' = []"; cases "qs' = []")
      assume "ps' = []" "qs' = []"
      with eq show ?thesis by simp
    next
      assume "ps' = []" "qs' \<noteq> []"
      with eq show ?thesis by simp
    next
      assume "ps' \<noteq> []" "qs' = []"
      with eq show ?thesis by simp
    next
      assume "ps' \<noteq> []" "qs' \<noteq> []"
      with eq Cons.IH [of qs'] Cons.prems(1,2) Cons show ?thesis by simp
    qed
    with k v p q Cons show ?thesis by simp
  qed
qed

text \<open>
  C3 (as amended). For one endpoint and parameter objects whose values are strings,
  integers, booleans or \<open>null\<close>, the cache keys of two objects are equal exactly when
  the objects list the same properties with the same values in the same order. The key
  thus depends on the order of the properties.
\<close>

theorem cache_key_order_sensitive:
  assumes "\<forall>v\<in>snd ` set ps. scalar v" and "\<forall>v\<in>snd ` set qs. scalar v"
  shows "getCacheKey u (Some ps) = getCacheKey u (Some qs) \<longleftrightarrow> ps = qs"
  using scalar_members_inj [OF assms, of "[]" "[]"] by (auto simp: getCacheKey_def)

theorem cache_key_order_sensitive_witness:
  "scalar (JStr ''Geopolitical'') \<and> scalar (JNum 10) \<and>
   getCacheKey ''/events'' (Some [(''category'', JStr ''Geopolitical''), (''limit'', JNum 10)]) \<noteq>
   getCacheKey ''/events'' (Some [(''limit'', JNum 10), (''category'', JStr ''Geopolitical'')])"
proof -
  have a: "\<forall>v\<in>snd ` set [(''category'', JStr ''Geopolitical''), (''limit'', JNum 10)]. scalar v"
    by simp
  have b: "\<forall>v\<in>snd ` set [(''limit'', JNum 10), (''category'', JStr ''Geopolitical'')]. scalar v"
    by simp
  from cache_key_order_sensitive [OF a b, of "''/events''"] a b show ?thesis by simp
qed

text \<open>
  C3 as stated: \<open>{a:1,b:2}\<close> and \<open>{b:2,a:1}\<close> have different keys.
\<close>

theorem cache_key_depends_on_order:
  "getCacheKey ''/prices'' (Some [(''a'', JNum 1), (''b'', JNum 2)]) \<noteq>
   getCacheKey ''/prices'' (Some [(''b'', JNum 2), (''a'', JNum 1)])"
  by (simp add: getCacheKey_def quote_def escape_char_def)

subsection \<open>Serving from the cache\<close>

text \<open>
  C1 (as amended). Let one of the seven caching functions return a truthy payload, be it
  from a call during which nothing else ran or from the continuation of a suspended call.
  Then the cache holds that payload under the call's key, and every later call with the
  same key returns the same payload at once and leaves the whole state unchanged, so that
  no request is handed to the transport, provided that in between \<open>clearCache\<close> has not
  been called, no suspended call with the same key has been continued, and the entry is
  younger than \<open>CACHE_DURATION\<close> at that call and at every lookup in between.
  \<open>fetchEventImpact\<close> and \<open>fetchDashboardConfig\<close> never use the cache: in every state,
  each call hands one request to the transport before it suspends, and neither half of
  the call reads or changes the cache.
\<close>

theorem cached_call_served_within_ttl:
  "(cache_key_of c = Some k \<and> cache_key_of c' = Some k \<and> truthy p \<and>
    (run_get c e1 s0 = (Inr p, s1) \<or> resume (Store k) e1 s0 = (Inr p, s1)) \<longrightarrow>
    (\<exists>t. cache s1 k = Some \<lparr>cached_data = p, timestamp = t\<rparr> \<and>
       (\<forall>ops e2. ClearCache \<notin> set ops \<and> (\<forall>e. Settle (Store k) e \<notin> set ops) \<and>
            (\<forall>d e. Get d e \<in> set ops \<or> Begin d e \<in> set ops \<longrightarrow>
               now_lookup e - t < CACHE_DURATION) \<and>
            now_lookup e2 - t < CACHE_DURATION \<longrightarrow>
          begin_get c' e2 (run_ops ops s1) = (Inl p, run_ops ops s1) \<and>
          run_get c' e2 (run_ops ops s1) = (Inr p, run_ops ops s1)))) \<and>
   fst (begin_get (FetchEventImpact n) e s) = Inr Forward \<and>
   (\<exists>rq. sent (snd (begin_get (FetchEventImpact n) e s)) = sent s @ [rq]) \<and>
   (\<exists>rq. sent (snd (run_get (FetchEventImpact n) e s)) = sent s @ [rq]) \<and>
   cache (snd (run_get (FetchEventImpact n) e s)) = cache s \<and>
   fst (run_get (FetchEventImpact n) e (s\<lparr>cache := m\<rparr>)) =
     fst (run_get (FetchEventImpact n) e s) \<and>
   fst (begin_get FetchDashboardConfig e s) = Inr Forward \<and>
   (\<exists>rq. sent (snd (begin_get FetchDashboardConfig e s)) = sent s @ [rq]) \<and>
   (\<exists>rq. sent (snd (run_get FetchDashboardConfig e s)) = sent s @ [rq]) \<and>
   cache (snd (run_get FetchDashboardConfig e s)) = cache s \<and>
   fst (run_get FetchDashboardConfig e (s\<lparr>cache := m\<rparr>)) = fst (run_get FetchDashboardConfig e s) \<and>
   cache (snd (begin_get (FetchEventImpact n) e s)) = cache s \<and>
   cache (snd (begin_get FetchDashboardConfig e s)) = cache s \<and>
   cache (snd (resume Forward e s)) = cache s \<and>
   fst (resume Forward e (s\<lparr>cache := m\<rparr>)) = fst (resume Forward e s)"
proof -
  have served: "\<exists>t. cache s1 k = Some \<lparr>cached_data = p, timestamp = t\<rparr> \<and>
       (\<forall>ops e2. ClearCache \<notin> set ops \<and> (\<forall>e. Settle (Store k) e \<notin> set ops) \<and>
            (\<forall>d e. Get d e \<in> set ops \<or> Begin d e \<in> set ops \<longrightarrow>
               now_lookup e - t < CACHE_DURATION) \<and>
            now_lookup e2 - t < CACHE_DURATION \<longrightarrow>
          begin_get c' e2 (run_ops ops s1) = (Inl p, run_ops ops s1) \<and>
          run_get c' e2 (run_ops ops s1) = (Inr p, run_ops ops s1))"
    if k: "cache_key_of c = Some k" and k': "cache_key_of c' = Some k" and tr: "truthy p"
      and first: "run_get c e1 s0 = (Inr p, s1) \<or> resume (Store k) e1 s0 = (Inr p, s1)"
  proof -
    from begin_get_cached [OF k] obtain u ps where
      c: "run_get c = cached_get u ps" "k = getCacheKey u ps"
      by blast
    from begin_get_cached [OF k'] obtain u' ps' where
      c': "\<And>e s. begin_get c' e s = cached_get_begin u' ps' e s"
      "run_get c' = cached_get u' ps'" "k = getCacheKey u' ps'"
      by blast
    from first obtain t where t: "cache s1 k = Some \<lparr>cached_data = p, timestamp = t\<rparr>"
    proof
      assume "run_get c e1 s0 = (Inr p, s1)"
      with cached_get_result_entry [of u ps e1 s0 p s1] tr c that show thesis by auto
    next
      assume "resume (Store k) e1 s0 = (Inr p, s1)"
      from resume_store_entry [OF this] that show thesis by blast
    qed
    have "begin_get c' e2 (run_ops ops s1) = (Inl p, run_ops ops s1) \<and>
          run_get c' e2 (run_ops ops s1) = (Inr p, run_ops ops s1)"
      if "ClearCache \<notin> set ops" and "\<forall>e. Settle (Store k) e \<notin> set ops"
        and "\<forall>d e. Get d e \<in> set ops \<or> Begin d e \<in> set ops \<longrightarrow>
               now_lookup e - t < CACHE_DURATION"
        and "now_lookup e2 - t < CACHE_DURATION" for ops e2
    proof -
      have en: "cache (run_ops ops s1) k = Some \<lparr>cached_data = p, timestamp = t\<rparr>"
        using run_ops_keeps_live_entry [OF t _ that(1,2)] tr that(3) by simp
      from cached_get_begin_hit [of "run_ops ops s1" u' ps' _ e2] en c' that(4) tr
      have "begin_get c' e2 (run_ops ops s1) = (Inl p, run_ops ops s1)" by simp
      moreover from cached_get_hit [of "run_ops ops s1" u' ps' _ e2] en c' that(4) tr
      have "run_get c' e2 (run_ops ops s1) = (Inr p, run_ops ops s1)" by simp
      ultimately show ?thesis ..
    qed
    with t show ?thesis by blast
  qed
  have impact: "fst (begin_get (FetchEventImpact n) e s) = Inr Forward"
    "\<exists>rq. sent (snd (begin_get (FetchEventImpact n) e s)) = sent s @ [rq]"
    "\<exists>rq. sent (snd (run_get (FetchEventImpact n) e s)) = sent s @ [rq]"
    "cache (snd (run_get (FetchEventImpact n) e s)) = cache s"
    "fst (run_get (FetchEventImpact n) e (s\<lparr>cache := m\<rparr>)) =
       fst (run_get (FetchEventImpact n) e s)"
    by (simp_all add: fetchEventImpact_def api_get_sent api_get_cache
        api_get_result_cache_indep api_request_frame)
  have config: "fst (begin_get FetchDashboardConfig e s) = Inr Forward"
    "\<exists>rq. sent (snd (begin_get FetchDashboardConfig e s)) = sent s @ [rq]"
    "\<exists>rq. sent (snd (run_get FetchDashboardConfig e s)) = sent s @ [rq]"
    "cache (snd (run_get FetchDashboardConfig e s)) = cache s"
    "fst (run_get FetchDashboardConfig e (s\<lparr>cache := m\<rparr>)) =
       fst (run_get FetchDashboardConfig e s)"
    by (simp_all add: fetchDashboardConfig_def api_get_sent api_get_cache
        api_get_result_cache_indep api_request_frame)
  have halves: "cache (snd (begin_get (FetchEventImpact n) e s)) = cache s"
    "cache (snd (begin_get FetchDashboardConfig e s)) = cache s"
    "cache (snd (resume Forward e s)) = cache s"
    "fst (resume Forward e (s\<lparr>cache := m\<rparr>)) = fst (resume Forward e s)"
    by (simp_all add: api_request_frame resume_def api_response_def
        split: sum.splits prod.splits)
  from served impact config halves show ?thesis by blast
qed

theorem cached_call_served_within_ttl_witness:
  "cache_key_of (FetchEvents (Some events_query)) = Some (getCacheKey ''/events'' (Some events_query)) \<and>
   truthy ok_body \<and>
   resume (Store (getCacheKey ''/events'' (Some events_query)))
       (mock None 1200 (responds 200 ok_body))
       (run_ops [Begin (FetchEvents (Some events_query)) (mock None 1000 times_out)] initial_state) =
     (Inr ok_body,
      run_ops [Begin (FetchEvents (Some events_query)) (mock None 1000 times_out),
               Settle (Store (getCacheKey ''/events'' (Some events_query)))
                 (mock None 1200 (responds 200 ok_body))] initial_state) \<and>
   run_get (FetchEvents (Some events_query)) (mock None 2000 times_out)
     (run_ops [Begin (FetchEvents (Some events_query)) (mock None 1000 times_out),
               Settle (Store (getCacheKey ''/events'' (Some events_query)))
                 (mock None 1200 (responds 200 ok_body)),
               Begin (FetchPrices None) (mock None 1300 times_out),
               Get FetchDashboardConfig (mock None 1500 (responds 200 ok_body)),
               Settle (Store (getCacheKey ''/prices'' (Some [])))
                 (mock None 1600 (responds 200 ok_body))] initial_state) =
     (Inr ok_body,
      run_ops [Begin (FetchEvents (Some events_query)) (mock None 1000 times_out),
               Settle (Store (getCacheKey ''/events'' (Some events_query)))
                 (mock None 1200 (responds 200 ok_body)),
               Begin (FetchPrices None) (mock None 1300 times_out),
               Get FetchDashboardConfig (mock None 1500 (responds 200 ok_body)),
               Settle (Store (getCacheKey ''/prices'' (Some [])))
                 (mock None 1600 (responds 200 ok_body))] initial_state)"
proof -
  let ?c = "FetchEvents (Some events_query)"
  let ?k = "getCacheKey ''/events'' (Some events_query)"
  let ?e1 = "mock None 1200 (responds 200 ok_body)"
  let ?s0 = "run_ops [Begin ?c (mock None 1000 times_out)] initial_state"
  let ?s1 = "run_ops [Begin ?c (mock None 1000 times_out), Settle (Store ?k) ?e1] initial_state"
  let ?ops = "[Begin (FetchPrices None) (mock None 1300 times_out),
               Get FetchDashboardConfig (mock None 1500 (responds 200 ok_body)),
               Settle (Store (getCacheKey ''/prices'' (Some [])))
                 (mock None 1600 (responds 200 ok_body))]"
  let ?e2 = "mock None 2000 times_out"
  have k: "cache_key_of ?c = Some ?k" by simp
  have tr: "truthy ok_body" by (simp add: ok_body_def)
  have r: "resume (Store ?k) ?e1 ?s0 = (Inr ok_body, ?s1)"
    by (simp add: eval_defs)
  have kk: "getCacheKey ''/prices'' (Some []) \<noteq> ?k"
    by (simp add: getCacheKey_def)
  note served = cached_call_served_within_ttl [THEN conjunct1, rule_format]
  from served [of ?c ?k ?c ok_body ?e1 ?s0 ?s1] k tr r obtain t where
    t: "cache ?s1 ?k = Some \<lparr>cached_data = ok_body, timestamp = t\<rparr>"
    and later: "\<And>ops e2. ClearCache \<notin> set ops \<Longrightarrow> \<forall>e. Settle (Store ?k) e \<notin> set ops \<Longrightarrow>
        \<forall>d e. Get d e \<in> set ops \<or> Begin d e \<in> set ops \<longrightarrow>
               now_lookup e - t < CACHE_DURATION \<Longrightarrow>
        now_lookup e2 - t < CACHE_DURATION \<Longrightarrow>
        run_get ?c e2 (run_ops ops ?s1) = (Inr ok_body, run_ops ops ?s1)"
    by blast
  have "cache ?s1 ?k = Some \<lparr>cached_data = ok_body, timestamp = 1200\<rparr>"
    by (simp add: eval_defs)
  with t have "t = 1200" by simp
  with kk have "run_get ?c ?e2 (run_ops ?ops ?s1) = (Inr ok_body, run_ops ?ops ?s1)"
    by (intro later) (auto simp add: mock_def CACHE_DURATION_def)
  moreover have "run_ops ?ops ?s1 =
      run_ops ([Begin ?c (mock None 1000 times_out), Settle (Store ?k) ?e1] @ ?ops) initial_state"
    by simp
  ultimately show ?thesis using k tr r by simp
qed

text \<open>
  C1 as stated speaks of every endpoint. \<open>fetchDashboardConfig\<close> (like
  \<open>fetchEventImpact\<close>) has no cache access at all: two successful calls one second apart
  hand two requests to the transport.
\<close>

theorem config_not_cached:
  "fst (run_get FetchDashboardConfig (mock None 1000 (responds 200 ok_body)) initial_state) = Inr ok_body \<and>
   length (sent (run_ops [Get FetchDashboardConfig (mock None 1000 (responds 200 ok_body))] initial_state)) = 1 \<and>
   length (sent (run_ops [Get FetchDashboardConfig (mock None 1000 (responds 200 ok_body)),
                  Get FetchDashboardConfig (mock None 2000 (responds 200 ok_body))] initial_state)) = 2"
  by (simp add: eval_defs)

subsection \<open>Responses with a 2xx status\<close>

text \<open>
  C2 (as amended). Whenever a call hands a request to the transport and axios fulfils it
  (the status is in the range 200 to 299), the call resolves with the response body as it
  is; the body's \<open>success\<close> property is not looked at.
\<close>

theorem fulfilled_response_resolves_with_body:
  assumes "settled e = Inr r" and "sent (snd (run_get c e s)) \<noteq> sent s"
  shows "fst (run_get c e s) = Inr (resp_data r)"
  using run_get_request [OF assms(2)] api_get_fulfilled [OF assms(1)] by auto

theorem fulfilled_response_resolves_with_body_witness:
  "settled (mock None 1000 (responds 200 ok_body)) = Inr \<lparr>resp_status = 200, resp_data = ok_body\<rparr> \<and>
   sent (snd (run_get FetchMetrics (mock None 1000 (responds 200 ok_body)) initial_state))
     \<noteq> sent initial_state \<and>
   fst (run_get FetchMetrics (mock None 1000 (responds 200 ok_body)) initial_state) = Inr ok_body"
proof -
  have a: "settled (mock None 1000 (responds 200 ok_body)) =
      Inr \<lparr>resp_status = 200, resp_data = ok_body\<rparr>"
    by (simp add: mock_def responds_def)
  have b: "sent (snd (run_get FetchMetrics (mock None 1000 (responds 200 ok_body)) initial_state))
     \<noteq> sent initial_state"
    by (simp add: eval_defs)
  from fulfilled_response_resolves_with_body [OF a b] a b show ?thesis by simp
qed

text \<open>
  C2 as stated: a response with status 200 whose body carries \<open>success: false\<close> is
  returned to the caller as a resolved payload, not as a rejection.
\<close>

theorem success_false_body_resolves:
  "fst (run_get (FetchPrices None)
          (mock None 1000
             (responds 200 (Json (JObj [(''success'', JBool False), (''message'', JStr ''no data'')]))))
          initial_state) =
     Inr (Json (JObj [(''success'', JBool False), (''message'', JStr ''no data'')]))"
  by (simp add: eval_defs)

subsection \<open>Rejections\<close>

text \<open>
  C4 (as amended). Whenever a call hands a request to the transport and axios rejects it
  (a timeout, a network error, or a status outside 200 to 299) with a non-empty error
  message, the call rejects with the one error shape and never resolves: \<open>success\<close> is
  false, \<open>status\<close> and \<open>data\<close> are those of the response when one was received and
  absent otherwise, and \<open>message\<close> is the \<open>message\<close> property of the response body
  whenever a response was received and that property is truthy, of whatever type it is,
  and the message of the axios error in every other case. So \<open>message\<close> is truthy, and
  whenever it is a string, it is not empty.
\<close>

theorem normalized_error_shape:
  assumes "settled e = Inl err" and "sent (snd (run_get c e s)) \<noteq> sent s"
    and "err_message err \<noteq> []"
  shows "\<exists>ne. fst (run_get c e s) = Inl ne \<and>
           success ne = False \<and>
           status ne = map_option resp_status (err_response err) \<and>
           data ne = map_option resp_data (err_response err) \<and>
           (\<forall>r v. err_response err = Some r \<and> field (resp_data r) ''message'' = Some v \<and>
                  json_truthy v \<longrightarrow> message ne = v) \<and>
           ((\<forall>r v. err_response err = Some r \<and> field (resp_data r) ''message'' = Some v \<longrightarrow>
                   \<not> json_truthy v) \<longrightarrow> message ne = JStr (err_message err)) \<and>
           json_truthy (message ne) \<and>
           (\<forall>str. message ne = JStr str \<longrightarrow> str \<noteq> [])"
proof -
  from run_get_request [OF assms(2)] api_get_rejected [OF assms(1)]
  have res: "fst (run_get c e s) = Inl (snd (response_error_interceptor err))"
    by auto
  let ?ne = "snd (response_error_interceptor err)"
  have "success ?ne = False"
    "status ?ne = map_option resp_status (err_response err)"
    "data ?ne = map_option resp_data (err_response err)"
    by (simp_all add: response_error_interceptor_def Let_def)
  moreover have "\<forall>r v. err_response err = Some r \<and> field (resp_data r) ''message'' = Some v \<and>
                  json_truthy v \<longrightarrow> message ?ne = v"
    by (simp add: response_error_interceptor_def Let_def)
  moreover have "(\<forall>r v. err_response err = Some r \<and> field (resp_data r) ''message'' = Some v \<longrightarrow>
                   \<not> json_truthy v) \<longrightarrow> message ?ne = JStr (err_message err)"
    by (simp add: response_error_interceptor_def Let_def split: option.splits)
  moreover have tr: "json_truthy (message ?ne)"
    using assms(3) by (simp add: response_error_interceptor_def Let_def split: option.splits)
  moreover from tr have "\<forall>str. message ?ne = JStr str \<longrightarrow> str \<noteq> []"
    by auto
  ultimately show ?thesis using res by blast
qed

theorem normalized_error_shape_witness:
  "settled (mock None 1000 (fails_with 404 (Json (JObj [(''message'', JStr ''Event not found'')])))) =
     Inl \<lparr>err_message = ''Request failed with status code 404'', err_code = None,
          err_response = Some \<lparr>resp_status = 404,
             resp_data = Json (JObj [(''message'', JStr ''Event not found'')])\<rparr>\<rparr> \<and>
   sent (snd (run_get (FetchEventImpact ''unknown'')
           (mock None 1000 (fails_with 404 (Json (JObj [(''message'', JStr ''Event not found'')]))))
           initial_state)) \<noteq> sent initial_state \<and>
   ''Request failed with status code 404'' \<noteq> [] \<and>
   fst (run_get (FetchEventImpact ''unknown'')
           (mock None 1000 (fails_with 404 (Json (JObj [(''message'', JStr ''Event not found'')]))))
           initial_state) =
     Inl \<lparr>success = False, message = JStr ''Event not found'', status = Some 404,
          data = Some (Json (JObj [(''message'', JStr ''Event not found'')]))\<rparr>"
proof -
  let ?b = "Json (JObj [(''message'', JStr ''Event not found'')])"
  let ?e = "mock None 1000 (fails_with 404 ?b)"
  let ?err = "\<lparr>err_message = ''Request failed with status code 404'', err_code = None,
          err_response = Some \<lparr>resp_status = 404, resp_data = ?b\<rparr>\<rparr>"
  have a: "settled ?e = Inl ?err"
    by (simp add: mock_def fails_with_def show_nat.simps digit_char_def)
  have b: "sent (snd (run_get (FetchEventImpact ''unknown'') ?e initial_state)) \<noteq> sent initial_state"
    by (simp add: eval_defs)
  have c: "err_message ?err \<noteq> []" by simp
  from normalized_error_shape [OF a b c] obtain ne where
    ne: "fst (run_get (FetchEventImpact ''unknown'') ?e initial_state) = Inl ne"
    "success ne = False"
    "status ne = map_option resp_status (err_response ?err)"
    "data ne = map_option resp_data (err_response ?err)"
    and body: "\<And>r v. err_response ?err = Some r \<Longrightarrow>
        field (resp_data r) ''message'' = Some v \<Longrightarrow> json_truthy v \<Longrightarrow> message ne = v"
    by blast
  have "message ne = JStr ''Event not found''"
    by (rule body [of "\<lparr>resp_status = 404, resp_data = ?b\<rparr>"]) simp_all
  with ne have "ne = \<lparr>success = False, message = JStr ''Event not found'', status = Some 404,
          data = Some ?b\<rparr>"
    by simp
  with ne(1) a b show ?thesis by simp
qed

text \<open>
  C4 as stated asks for a string. A 404 response whose body is \<open>{"message": 42}\<close> is
  rejected with the number as \<open>message\<close>.
\<close>

theorem not_found_with_numeric_message:
  "fst (run_get (FetchEventImpact ''unknown'')
          (mock None 1000 (fails_with 404 (Json (JObj [(''message'', JNum 42)]))))
          initial_state) =
     Inl \<lparr>success = False, message = JNum 42, status = Some 404,
          data = Some (Json (JObj [(''message'', JNum 42)]))\<rparr>"
  by (simp add: eval_defs)

text \<open>
  C6. A request that axios aborts because the configured 30000 ms have passed reaches
  the error handler without a response and with the code \<open>ECONNABORTED\<close>. The handler
  then logs exactly the timeout diagnostic (not the line of the default branch, and not
  nothing), and the call rejects with the usual shape, the axios message in \<open>message\<close>
  and no \<open>status\<close>.
\<close>

theorem timeout_rejects_as_timeout:
  assumes "settled e = Inl err" and "err_response err = None"
    and "err_code err = Some ''ECONNABORTED''"
    and "sent (snd (run_get c e s)) \<noteq> sent s"
  shows "fst (run_get c e s) =
           Inl \<lparr>success = False, message = JStr (err_message err), status = None, data = None\<rparr> \<and>
         console (snd (run_get c e s)) = console s @ [[''Request timeout'']] \<and>
         req_timeout (last (sent (snd (run_get c e s)))) = 30000"
proof -
  from run_get_request [OF assms(4)] obtain u cfg s' where
    s': "sent s' = sent s" "console s' = console s"
    "fst (run_get c e s) = fst (api_get u cfg e s')"
    "sent (snd (run_get c e s)) = sent (snd (api_get u cfg e s'))"
    "console (snd (run_get c e s)) = console (snd (api_get u cfg e s'))"
    by blast
  have h: "response_error_interceptor err =
      ([[''Request timeout'']],
       \<lparr>success = False, message = JStr (err_message err), status = None, data = None\<rparr>)"
    using assms(2,3) by (simp add: response_error_interceptor_def)
  have "req_timeout (last (sent (snd (api_get u cfg e s')))) = 30000"
    by (simp add: api_get_sent request_interceptor_def api_def Let_def split: option.splits)
  with s' api_get_rejected [OF assms(1), of u cfg s'] h show ?thesis by simp
qed

theorem timeout_rejects_as_timeout_witness:
  "settled (mock None 1000 times_out) =
     Inl \<lparr>err_message = ''timeout of 30000ms exceeded'', err_code = Some ''ECONNABORTED'',
          err_response = None\<rparr> \<and>
   sent (snd (run_get (FetchPrices None) (mock None 1000 times_out) initial_state))
     \<noteq> sent initial_state \<and>
   fst (run_get (FetchPrices None) (mock None 1000 times_out) initial_state) =
     Inl \<lparr>success = False, message = JStr ''timeout of 30000ms exceeded'', status = None,
          data = None\<rparr> \<and>
   console (snd (run_get (FetchPrices None) (mock None 1000 times_out) initial_state)) =
     [[''Request timeout'']] \<and>
   req_timeout (last (sent (snd (run_get (FetchPrices None) (mock None 1000 times_out)
     initial_state)))) = 30000"
proof -
  let ?e = "mock None 1000 times_out"
  let ?err = "\<lparr>err_message = ''timeout of 30000ms exceeded'', err_code = Some ''ECONNABORTED'',
          err_response = None\<rparr>"
  have a: "settled ?e = Inl ?err" by (simp add: mock_def times_out_def)
  have b: "err_response ?err = None" by simp
  have c: "err_code ?err = Some ''ECONNABORTED''" by simp
  have d: "sent (snd (run_get (FetchPrices None) ?e initial_state)) \<noteq> sent initial_state"
    by (simp add: eval_defs)
  from timeout_rejects_as_timeout [OF a b c d] a d show ?thesis
    by (simp add: initial_state_def)
qed

subsection \<open>Clearing the cache\<close>

text \<open>
  C5 (as amended). \<open>clearCache\<close> leaves no entry whatever the state. After it, and
  after whatever further steps that neither call a function with the key nor continue a
  suspended call with the key, the first call of a caching function with that key finds
  no entry, hands one request to the transport and suspends. The continuation of a
  suspended call with the key, run after \<open>clearCache\<close> with a truthy response, stores
  that response, and a call with the key within \<open>CACHE_DURATION\<close> of the store returns
  it and hands no request to the transport.
\<close>

theorem clearCache_forces_request:
  "cache (clearCache s) = Map.empty \<and>
   (cache_key_of c = Some k \<and> (\<forall>e. Settle (Store k) e \<notin> set ops) \<and>
    (\<forall>d e. Get d e \<in> set ops \<or> Begin d e \<in> set ops \<longrightarrow> cache_key_of d \<noteq> Some k) \<longrightarrow>
      fst (begin_get c e (run_ops ops (clearCache s))) = Inr (Store k) \<and>
      (\<exists>rq. sent (snd (begin_get c e (run_ops ops (clearCache s)))) =
             sent (run_ops ops (clearCache s)) @ [rq]) \<and>
      (\<exists>rq. sent (snd (run_get c e (run_ops ops (clearCache s)))) =
             sent (run_ops ops (clearCache s)) @ [rq])) \<and>
   (cache_key_of c = Some k \<and> settled e1 = Inr r \<and> truthy (resp_data r) \<and>
    now_lookup e2 - now_store e1 < CACHE_DURATION \<longrightarrow>
      run_get c e2 (snd (resume (Store k) e1 (clearCache s))) =
        (Inr (resp_data r), snd (resume (Store k) e1 (clearCache s))))"
proof -
  have refill: "run_get c e2 (snd (resume (Store k) e1 (clearCache s))) =
        (Inr (resp_data r), snd (resume (Store k) e1 (clearCache s)))"
    if k: "cache_key_of c = Some k" and ok: "settled e1 = Inr r" and tr: "truthy (resp_data r)"
      and young: "now_lookup e2 - now_store e1 < CACHE_DURATION"
  proof -
    let ?s = "snd (resume (Store k) e1 (clearCache s))"
    from begin_get_cached [OF k] obtain u ps where
      c: "run_get c = cached_get u ps" "k = getCacheKey u ps"
      by blast
    from ok have "resume (Store k) e1 (clearCache s) = (Inr (resp_data r), ?s)"
      by (simp add: resume_def api_response_def response_interceptor_def)
    from resume_store_entry [OF this]
    have "cache ?s k = Some \<lparr>cached_data = resp_data r, timestamp = now_store e1\<rparr>" .
    from cached_get_hit [of ?s u ps _ e2] this c young tr show ?thesis by simp
  qed
  have "fst (begin_get c e (run_ops ops (clearCache s))) = Inr (Store k) \<and>
      (\<exists>rq. sent (snd (begin_get c e (run_ops ops (clearCache s)))) =
             sent (run_ops ops (clearCache s)) @ [rq]) \<and>
      (\<exists>rq. sent (snd (run_get c e (run_ops ops (clearCache s)))) =
             sent (run_ops ops (clearCache s)) @ [rq])"
    if k: "cache_key_of c = Some k" and ns: "\<forall>e. Settle (Store k) e \<notin> set ops"
      and nk: "\<forall>d e. Get d e \<in> set ops \<or> Begin d e \<in> set ops \<longrightarrow> cache_key_of d \<noteq> Some k"
  proof -
    let ?s = "run_ops ops (clearCache s)"
    from begin_get_cached [OF k] obtain u ps where
      c: "\<And>e s. begin_get c e s = cached_get_begin u ps e s" "k = getCacheKey u ps"
      by blast
    have "cache (clearCache s) k = None" by (simp add: clearCache_def)
    from run_ops_keeps_absent [OF this ns nk] have absent: "cache ?s (getCacheKey u ps) = None"
      using c(2) by simp
    from cached_get_begin_miss [OF absent, of e] c
    have b: "fst (begin_get c e ?s) = Inr (Store k)"
      "\<exists>rq. sent (snd (begin_get c e ?s)) = sent ?s @ [rq]"
      by simp_all
    have "sent (snd (run_get c e ?s)) = sent (snd (begin_get c e ?s))"
      using b(1) api_response_frame [of e "snd (begin_get c e ?s)"]
      by (cases "begin_get c e ?s")
         (auto simp: run_get_complete complete_def resume_def setToCache_def
            split: prod.splits sum.splits)
    with b show ?thesis by simp
  qed
  with refill show ?thesis by (simp add: clearCache_def)
qed

theorem clearCache_forces_request_witness:
  "cache_key_of (FetchEvents (Some events_query)) = Some (getCacheKey ''/events'' (Some events_query)) \<and>
   fst (begin_get (FetchEvents (Some events_query)) (mock None 3000 times_out)
     (run_ops [Get (FetchPrices None) (mock None 2000 (responds 200 ok_body)),
               Settle (Store (getCacheKey ''/metrics'' None)) (mock None 2500 (responds 200 ok_body))]
        (clearCache (run_ops [Get (FetchEvents (Some events_query))
                                (mock None 1000 (responds 200 ok_body)),
                              Begin FetchMetrics (mock None 1500 times_out)] initial_state)))) =
     Inr (Store (getCacheKey ''/events'' (Some events_query))) \<and>
   length (sent (snd (run_get (FetchEvents (Some events_query)) (mock None 3000 times_out)
     (run_ops [Get (FetchPrices None) (mock None 2000 (responds 200 ok_body)),
               Settle (Store (getCacheKey ''/metrics'' None)) (mock None 2500 (responds 200 ok_body))]
        (clearCache (run_ops [Get (FetchEvents (Some events_query))
                                (mock None 1000 (responds 200 ok_body)),
                              Begin FetchMetrics (mock None 1500 times_out)] initial_state)))))) =
     Suc (length (sent
     (run_ops [Get (FetchPrices None) (mock None 2000 (responds 200 ok_body)),
               Settle (Store (getCacheKey ''/metrics'' None)) (mock None 2500 (responds 200 ok_body))]
        (clearCache (run_ops [Get (FetchEvents (Some events_query))
                                (mock None 1000 (responds 200 ok_body)),
                              Begin FetchMetrics (mock None 1500 times_out)] initial_state))))) \<and>
   settled (mock None 2500 (responds 200 ok_body)) =
     Inr \<lparr>resp_status = 200, resp_data = ok_body\<rparr> \<and>
   truthy ok_body \<and>
   run_get (FetchEvents (Some events_query)) (mock None 3000 times_out)
     (snd (resume (Store (getCacheKey ''/events'' (Some events_query)))
             (mock None 2500 (responds 200 ok_body)) (clearCache initial_state))) =
     (Inr ok_body,
      snd (resume (Store (getCacheKey ''/events'' (Some events_query)))
             (mock None 2500 (responds 200 ok_body)) (clearCache initial_state)))"
proof -
  let ?c = "FetchEvents (Some events_query)"
  let ?k = "getCacheKey ''/events'' (Some events_query)"
  let ?ops = "[Get (FetchPrices None) (mock None 2000 (responds 200 ok_body)),
               Settle (Store (getCacheKey ''/metrics'' None)) (mock None 2500 (responds 200 ok_body))]"
  let ?s = "run_ops [Get ?c (mock None 1000 (responds 200 ok_body)),
                     Begin FetchMetrics (mock None 1500 times_out)] initial_state"
  have k: "cache_key_of ?c = Some ?k" by simp
  have ns: "\<forall>e. Settle (Store ?k) e \<notin> set ?ops"
    by (simp add: getCacheKey_def)
  have nk: "\<forall>d e. Get d e \<in> set ?ops \<or> Begin d e \<in> set ?ops \<longrightarrow> cache_key_of d \<noteq> Some ?k"
    by (auto simp: getCacheKey_def)
  have ok: "settled (mock None 2500 (responds 200 ok_body)) =
     Inr \<lparr>resp_status = 200, resp_data = ok_body\<rparr>"
    by (simp add: mock_def responds_def)
  have tr: "truthy ok_body" by (simp add: ok_body_def)
  note refill = clearCache_forces_request [THEN conjunct2, THEN conjunct2, rule_format]
  from refill [of ?c ?k "mock None 2500 (responds 200 ok_body)"
      "\<lparr>resp_status = 200, resp_data = ok_body\<rparr>" "mock None 3000 times_out" initial_state]
    k ok tr
  have served: "run_get ?c (mock None 3000 times_out)
     (snd (resume (Store ?k) (mock None 2500 (responds 200 ok_body)) (clearCache initial_state))) =
     (Inr ok_body,
      snd (resume (Store ?k) (mock None 2500 (responds 200 ok_body)) (clearCache initial_state)))"
    by (simp add: mock_def CACHE_DURATION_def)
  note forced = clearCache_forces_request [THEN conjunct2, THEN conjunct1, rule_format]
  from forced [of ?c ?k ?ops "mock None 3000 times_out" ?s] k ns nk
  have "fst (begin_get ?c (mock None 3000 times_out) (run_ops ?ops (clearCache ?s))) =
          Inr (Store ?k)"
    and "\<exists>rq. sent (snd (run_get ?c (mock None 3000 times_out) (run_ops ?ops (clearCache ?s)))) =
             sent (run_ops ?ops (clearCache ?s)) @ [rq]"
    by blast+
  with k ok tr served show ?thesis by auto
qed

text \<open>
  C5 as stated does not hold for a request in flight across \<open>clearCache\<close>. The key
  \<open>/prices:{}\<close> is cached at time 1000. At 400000 the entry is stale, so a call of
  \<open>fetchPrices\<close> sends a request and suspends; \<open>clearCache\<close> runs; the request settles
  and the continuation stores its response. The next call of \<open>fetchPrices\<close> is served
  from that entry: it returns the payload and hands no request to the transport.
\<close>

theorem inflight_request_refills_cache:
  "cache (run_ops [Get (FetchPrices None) (mock None 1000 (responds 200 ok_body)),
                   Begin (FetchPrices None) (mock None 400000 times_out),
                   ClearCache] initial_state) (getCacheKey ''/prices'' (Some [])) = None \<and>
   length (sent (run_ops [Get (FetchPrices None) (mock None 1000 (responds 200 ok_body)),
                   Begin (FetchPrices None) (mock None 400000 times_out),
                   ClearCache,
                   Settle (Store (getCacheKey ''/prices'' (Some [])))
                     (mock None 400200 (responds 200 ok_body))] initial_state)) = 2 \<and>
   fst (run_get (FetchPrices None) (mock None 400300 times_out)
     (run_ops [Get (FetchPrices None) (mock None 1000 (responds 200 ok_body)),
                   Begin (FetchPrices None) (mock None 400000 times_out),
                   ClearCache,
                   Settle (Store (getCacheKey ''/prices'' (Some [])))
                     (mock None 400200 (responds 200 ok_body))] initial_state)) = Inr ok_body \<and>
   length (sent (snd (run_get (FetchPrices None) (mock None 400300 times_out)
     (run_ops [Get (FetchPrices None) (mock None 1000 (responds 200 ok_body)),
                   Begin (FetchPrices None) (mock None 400000 times_out),
                   ClearCache,
                   Settle (Store (getCacheKey ''/prices'' (Some [])))
                     (mock None 400200 (responds 200 ok_body))] initial_state)))) = 2"
  by (simp add: eval_defs)

subsection \<open>Exports\<close>

text \<open>
  C7. \<open>exportPrices\<close> and \<open>exportEvents\<close> leave the cache as it is, return a result
  that does not depend on the cache, and always hand one request with
  \<open>responseType: 'blob'\<close> to the transport.
\<close>

theorem exports_bypass_cache:
  "cache (snd (exportPrices fmt e s)) = cache s \<and>
   fst (exportPrices fmt e (s\<lparr>cache := m\<rparr>)) = fst (exportPrices fmt e s) \<and>
   (\<exists>rq. sent (snd (exportPrices fmt e s)) = sent s @ [rq] \<and>
         req_responseType rq = Some ''blob'') \<and>
   cache (snd (exportEvents fmt e s)) = cache s \<and>
   fst (exportEvents fmt e (s\<lparr>cache := m\<rparr>)) = fst (exportEvents fmt e s) \<and>
   (\<exists>rq. sent (snd (exportEvents fmt e s)) = sent s @ [rq] \<and>
         req_responseType rq = Some ''blob'')"
  by (simp add: exportPrices_def exportEvents_def Let_def api_get_cache
      api_get_result_cache_indep api_get_sent interceptor_responseType)

subsection \<open>Request headers\<close>

text \<open>
  C8. Every request handed to the transport carries \<open>Content-Type: application/json\<close>.
  With a non-empty token in \<open>localStorage\<close> it carries \<open>Authorization: Bearer\<close> followed
  by the token; without a token it carries no \<open>Authorization\<close> header and is handed to
  the transport all the same.
\<close>

theorem request_headers:
  "\<exists>rq. sent (snd (api_get u cfg e s)) = sent s @ [rq] \<and>
     req_headers rq ''Content-Type'' = Some ''application/json'' \<and>
     (\<forall>t. localStorage e ''auth_token'' = Some t \<and> t \<noteq> [] \<longrightarrow>
          req_headers rq ''Authorization'' = Some (''Bearer '' @ t)) \<and>
     (localStorage e ''auth_token'' = None \<longrightarrow> req_headers rq ''Authorization'' = None)"
  by (simp add: api_get_sent interceptor_content_type interceptor_authorization)

theorem request_headers_witness:
  "localStorage (mock (Some ''abc'') 1000 times_out) ''auth_token'' = Some ''abc'' \<and> ''abc'' \<noteq> [] \<and>
   (\<exists>rq. sent (snd (api_get ''/config'' no_config (mock (Some ''abc'') 1000 times_out)
              initial_state)) = [rq] \<and>
     req_headers rq ''Content-Type'' = Some ''application/json'' \<and>
     req_headers rq ''Authorization'' = Some ''Bearer abc'') \<and>
   localStorage (mock None 1000 times_out) ''auth_token'' = None \<and>
   (\<exists>rq. sent (snd (api_get ''/config'' no_config (mock None 1000 times_out)
              initial_state)) = [rq] \<and>
     req_headers rq ''Content-Type'' = Some ''application/json'' \<and>
     req_headers rq ''Authorization'' = None)"
proof -
  have a: "localStorage (mock (Some ''abc'') 1000 times_out) ''auth_token'' = Some ''abc''"
    by (simp add: mock_def)
  have b: "localStorage (mock None 1000 times_out) ''auth_token'' = None"
    by (simp add: mock_def)
  have i: "sent initial_state = []" by (simp add: initial_state_def)
  from request_headers [of "''/config''" no_config "mock (Some ''abc'') 1000 times_out" initial_state]
  have 1: "\<exists>rq. sent (snd (api_get ''/config'' no_config (mock (Some ''abc'') 1000 times_out)
              initial_state)) = [rq] \<and>
     req_headers rq ''Content-Type'' = Some ''application/json'' \<and>
     req_headers rq ''Authorization'' = Some ''Bearer abc''"
    using a i by auto
  from request_headers [of "''/config''" no_config "mock None 1000 times_out" initial_state]
  have 2: "\<exists>rq. sent (snd (api_get ''/config'' no_config (mock None 1000 times_out)
              initial_state)) = [rq] \<and>
     req_headers rq ''Content-Type'' = Some ''application/json'' \<and>
     req_headers rq ''Authorization'' = None"
    using b i by auto
  from a b 1 2 show ?thesis by simp
qed

subsection \<open>The two metrics functions\<close>

text \<open>
  C9. \<open>fetchMetrics\<close> and \<open>fetchSummaryMetrics\<close> are the same function
  (\<open>fetchMetrics_eq_fetchSummaryMetrics\<close>) and share the key \<open>/metrics:\<close>. The entry
  that one of them stores serves the other only when the payload is truthy: after a
  response with status 200 and an empty body, the entry is stored, and a call of the
  other function one second later hands a second request to the transport.
\<close>

theorem falsy_metrics_payload_fetched_again:
  "fst (run_get FetchMetrics (mock None 1000 (responds 200 (Json (JStr [])))) initial_state) =
     Inr (Json (JStr [])) \<and>
   cache (run_ops [Get FetchMetrics (mock None 1000 (responds 200 (Json (JStr []))))] initial_state)
       (getCacheKey ''/metrics'' None) =
     Some \<lparr>cached_data = Json (JStr []), timestamp = 1000\<rparr> \<and>
   length (sent (run_ops [Get FetchMetrics (mock None 1000 (responds 200 (Json (JStr []))))]
       initial_state)) = 1 \<and>
   length (sent (run_ops [Get FetchMetrics (mock None 1000 (responds 200 (Json (JStr [])))),
                          Get FetchSummaryMetrics (mock None 2000 (responds 200 (Json (JStr []))))]
       initial_state)) = 2"
  by (simp add: eval_defs)

subsection \<open>Batches\<close>

lemma allSettled_Some:
  "Pending \<notin> set rs \<Longrightarrow>
     \<exists>res. allSettled rs = Some res \<and> length res = length rs \<and>
       (\<forall>i<length rs. (\<forall>v. rs ! i = Fulfilled v \<longrightarrow> res ! i = FulfilledResult v) \<and>
                       (\<forall>r. rs ! i = Rejected r \<longrightarrow> res ! i = RejectedResult r))"
proof (induction rs)
  case Nil
  then show ?case by simp
next
  case (Cons p ps)
  then obtain res where res: "allSettled ps = Some res" "length res = length ps"
    and nth: "\<And>i. i < length ps \<Longrightarrow>
           (\<forall>v. ps ! i = Fulfilled v \<longrightarrow> res ! i = FulfilledResult v) \<and>
           (\<forall>r. ps ! i = Rejected r \<longrightarrow> res ! i = RejectedResult r)"
    by auto
  from Cons.prems have "p \<noteq> Pending" by auto
  then show ?case
  proof (cases p)
    case (Fulfilled v)
    have "\<forall>i<length (p # ps).
            (\<forall>w. (p # ps) ! i = Fulfilled w \<longrightarrow> (FulfilledResult v # res) ! i = FulfilledResult w) \<and>
            (\<forall>r. (p # ps) ! i = Rejected r \<longrightarrow> (FulfilledResult v # res) ! i = RejectedResult r)"
      using nth Fulfilled by (simp add: nth_Cons split: nat.splits)
    with res Fulfilled show ?thesis by simp
  next
    case (Rejected r)
    have "\<forall>i<length (p # ps).
            (\<forall>w. (p # ps) ! i = Fulfilled w \<longrightarrow> (RejectedResult r # res) ! i = FulfilledResult w) \<and>
            (\<forall>w. (p # ps) ! i = Rejected w \<longrightarrow> (RejectedResult r # res) ! i = RejectedResult w)"
      using nth Rejected by (simp add: nth_Cons split: nat.splits)
    with res Rejected show ?thesis by simp
  qed simp
qed

lemma allSettled_None: "Pending \<in> set rs \<Longrightarrow> allSettled rs = None"
  by (induction rs) (auto split: promise.splits)

text \<open>A batch with a promise that never settles never settles itself.\<close>

lemma batchRequests_pending: "Pending \<in> set requests \<Longrightarrow> batchRequests requests = None"
  by (simp add: batchRequests_def allSettled_None)

text \<open>
  C10. \<open>batchRequests\<close> has no rejection: once every input promise has settled it
  resolves with one element per input, in input order; the element carries the promise
  itself, and for a fulfilled promise the status \<open>fulfilled\<close>, the value as \<open>data\<close> and
  no \<open>error\<close>, for a rejected one the status \<open>rejected\<close> and the reason both as
  \<open>data\<close> and as \<open>error\<close>.
\<close>

theorem batchRequests_settles:
  assumes "Pending \<notin> set requests"
  shows "\<exists>out. batchRequests requests = Some out \<and> length out = length requests \<and>
           (\<forall>i<length requests.
              br_request (out ! i) = requests ! i \<and>
              (\<forall>v. requests ! i = Fulfilled v \<longrightarrow>
                 br_status (out ! i) = ''fulfilled'' \<and> br_data (out ! i) = v \<and>
                 br_error (out ! i) = None) \<and>
              (\<forall>r. requests ! i = Rejected r \<longrightarrow>
                 br_status (out ! i) = ''rejected'' \<and> br_data (out ! i) = r \<and>
                 br_error (out ! i) = Some r))"
proof -
  from allSettled_Some [OF assms] obtain res where
    res: "allSettled requests = Some res" "length res = length requests"
    and nth: "\<And>i. i < length requests \<Longrightarrow>
           (\<forall>v. requests ! i = Fulfilled v \<longrightarrow> res ! i = FulfilledResult v) \<and>
           (\<forall>r. requests ! i = Rejected r \<longrightarrow> res ! i = RejectedResult r)"
    by blast
  let ?out = "map (\<lambda>(result, index).
                 case result of
                   FulfilledResult v \<Rightarrow>
                     \<lparr>br_request = requests ! index, br_status = ''fulfilled'',
                      br_data = v, br_error = None\<rparr>
                 | RejectedResult reason \<Rightarrow>
                     \<lparr>br_request = requests ! index, br_status = ''rejected'',
                      br_data = reason, br_error = Some reason\<rparr>)
              (zip res [0..<length res])"
  have out: "batchRequests requests = Some ?out"
    by (simp add: batchRequests_def res)
  have len: "length ?out = length requests"
    by (simp add: res)
  have "br_request (?out ! i) = requests ! i \<and>
        (\<forall>v. requests ! i = Fulfilled v \<longrightarrow>
           br_status (?out ! i) = ''fulfilled'' \<and> br_data (?out ! i) = v \<and>
           br_error (?out ! i) = None) \<and>
        (\<forall>r. requests ! i = Rejected r \<longrightarrow>
           br_status (?out ! i) = ''rejected'' \<and> br_data (?out ! i) = r \<and>
           br_error (?out ! i) = Some r)" if "i < length requests" for i
    using that nth [OF that] res by (auto split: settled_result.splits)
  with out len show ?thesis by blast
qed

theorem batchRequests_settles_witness:
  "Pending \<notin> set [Fulfilled (1::int), Rejected 2] \<and>
   batchRequests [Fulfilled (1::int), Rejected 2] =
     Some [\<lparr>br_request = Fulfilled 1, br_status = ''fulfilled'', br_data = 1, br_error = None\<rparr>,
           \<lparr>br_request = Rejected 2, br_status = ''rejected'', br_data = 2, br_error = Some 2\<rparr>]"
proof -
  have h: "Pending \<notin> set [Fulfilled (1::int), Rejected 2]" by simp
  from batchRequests_settles [OF h] obtain out where
    o: "batchRequests [Fulfilled (1::int), Rejected 2] = Some out" "length out = 2"
    and n: "\<And>i. i < 2 \<Longrightarrow> br_request (out ! i) = [Fulfilled (1::int), Rejected 2] ! i \<and>
              (\<forall>v. [Fulfilled (1::int), Rejected 2] ! i = Fulfilled v \<longrightarrow>
                 br_status (out ! i) = ''fulfilled'' \<and> br_data (out ! i) = v \<and>
                 br_error (out ! i) = None) \<and>
              (\<forall>r. [Fulfilled (1::int), Rejected 2] ! i = Rejected r \<longrightarrow>
                 br_status (out ! i) = ''rejected'' \<and> br_data (out ! i) = r \<and>
                 br_error (out ! i) = Some r)"
    by auto
  from o(2) obtain a b where ab: "out = [a, b]"
    by (cases out; cases "tl out") auto
  from n [of 0] n [of 1] ab
  have "a = \<lparr>br_request = Fulfilled 1, br_status = ''fulfilled'', br_data = 1, br_error = None\<rparr>"
    "b = \<lparr>br_request = Rejected 2, br_status = ''rejected'', br_data = 2, br_error = Some 2\<rparr>"
    by auto
  with o ab h show ?thesis by simp
qed

end
